theory Spec2Isabelle
  imports Main "HOL-Library.AList" "HOL-Library.Multiset"
begin

section \<open>Host objects\<close>

text \<open>
  Modelled from the spec: the host types \<open>KwinDesktop\<close>, \<open>Output\<close>, \<open>KwinClient\<close>, the
  global \<open>Workspace\<close>, the \<open>DesktopFilter\<close> and the class \<open>Desktop\<close> are declared outside
  \<open>DesktopManager.ts\<close>. Only the members that \<open>DesktopManager.ts\<close> reads are kept.
  A JavaScript object is compared by reference (in a \<open>Set\<close>, by \<open>has\<close>), so each
  host object carries its reference next to the fields the manager reads.
\<close>

record KwinDesktop =
  ref_desktop :: nat
  id_desktop :: string

record Output =
  ref_output :: nat
  name :: string

record KwinClient =
  activities_client :: "string list"
  desktops_client :: "KwinDesktop list"
  output_client :: Output

record Workspace =
  activities :: "string list"
  desktops_ws :: "KwinDesktop list"
  screens :: "Output list"
  currentActivity :: string
  currentDesktop :: KwinDesktop
  activeScreen :: Output

record DesktopFilter =
  shouldWorkOnDesktop :: "KwinDesktop \<Rightarrow> bool"

text \<open>
  Modelled from the spec: a \<open>Desktop\<close> (the spec's LogicalDesktop) is bound to the virtual
  desktop and the screen it was constructed with; \<open>inst\<close> is the identity of the object
  that \<open>new Desktop(...)\<close> allocated.
\<close>

record Desktop =
  inst :: nat
  kwinDesktop_of :: KwinDesktop
  screen_of :: Output

section \<open>JavaScript containers\<close>

text \<open>
  A \<open>Set\<close> iterates in insertion order and holds no element twice: a list without
  repetition. \<open>new Set(array)\<close> adds the elements of the array from left to right.
\<close>

definition Set_add :: "'a list \<Rightarrow> 'a \<Rightarrow> 'a list" where
  "Set_add s x = (if x \<in> set s then s else s @ [x])"

definition new_Set :: "'a list \<Rightarrow> 'a list" where
  "new_Set xs = foldl Set_add [] xs"

text \<open>
  \<open>for (... of x)\<close> over an array or a \<open>Set\<close> starts a fresh traversal each time; over
  the iterator that \<open>Set.prototype.keys()\<close> returns it consumes the iterator, and a second
  loop over the same iterator finds it exhausted.
\<close>

datatype 'a iterable = Array "'a list" | Iterator "'a list"

fun for_of :: "'a iterable \<Rightarrow> 'a list \<times> 'a iterable" where
  "for_of (Array xs) = (xs, Array xs)"
| "for_of (Iterator xs) = (xs, Iterator [])"

section \<open>The desktop manager\<close>

text \<open>
  \<open>desktops\<close> is the JavaScript \<open>Map\<close> from key strings to \<open>Desktop\<close> objects, in insertion order: \<open>get\<close> is \<open>map_of\<close>,
  \<open>set\<close> is \<open>AList.update\<close> (replace in place, or append), \<open>delete\<close> is \<open>AList.delete\<close>,
  \<open>values()\<close> is \<open>map snd\<close>. The last two fields record what the manager does to
  \<open>Desktop\<close> objects: how many it has constructed, and on which instances it has invoked
  \<open>destroy()\<close>, in order.
\<close>

record DesktopManager =
  desktops :: "(string \<times> Desktop) list"
  kwinActivities :: "string list"
  kwinDesktops :: "KwinDesktop list"
  kwinScreens :: "Output list"
  constructed :: nat
  destroyed :: "nat list"

definition constructor :: "Workspace \<Rightarrow> DesktopManager" where
  "constructor w =
     \<lparr>desktops = [],
      kwinActivities = new_Set (activities w),
      kwinDesktops = new_Set (desktops_ws w),
      kwinScreens = new_Set (screens w),
      constructed = 0,
      destroyed = []\<rparr>"

definition getDesktopKey :: "string \<Rightarrow> KwinDesktop \<Rightarrow> Output \<Rightarrow> string" where
  "getDesktopKey activity kwinDesktop screen =
     activity @ ''|'' @ id_desktop kwinDesktop @ ''|'' @ name screen"

definition addDesktop ::
  "string \<Rightarrow> KwinDesktop \<Rightarrow> Output \<Rightarrow> DesktopManager \<Rightarrow> Desktop \<times> DesktopManager" where
  "addDesktop activity kwinDesktop screen this =
     (let desktopKey = getDesktopKey activity kwinDesktop screen;
          desktop = \<lparr>inst = constructed this, kwinDesktop_of = kwinDesktop, screen_of = screen\<rparr>
      in (desktop,
          this\<lparr>constructed := Suc (constructed this),
               desktops := AList.update desktopKey desktop (desktops this)\<rparr>))"

definition getDesktop ::
  "DesktopFilter \<Rightarrow> string \<Rightarrow> KwinDesktop \<Rightarrow> Output \<Rightarrow> DesktopManager
     \<Rightarrow> Desktop option \<times> DesktopManager" where
  "getDesktop desktopFilter activity kwinDesktop screen this =
     (if \<not> shouldWorkOnDesktop desktopFilter kwinDesktop then (None, this)
      else
        let desktopKey = getDesktopKey activity kwinDesktop screen;
            desktop = map_of (desktops this) desktopKey
        in (case desktop of
              Some d \<Rightarrow> (Some d, this)
            | None \<Rightarrow>
                (let (d, this') = addDesktop activity kwinDesktop screen this
                 in (Some d, this'))))"

definition getCurrentDesktop ::
  "DesktopFilter \<Rightarrow> Workspace \<Rightarrow> DesktopManager \<Rightarrow> Desktop option \<times> DesktopManager" where
  "getCurrentDesktop desktopFilter w this =
     getDesktop desktopFilter (currentActivity w) (currentDesktop w) (activeScreen w) this"

definition getDesktopInCurrentActivity ::
  "DesktopFilter \<Rightarrow> Workspace \<Rightarrow> KwinDesktop \<Rightarrow> Output \<Rightarrow> DesktopManager
     \<Rightarrow> Desktop option \<times> DesktopManager" where
  "getDesktopInCurrentActivity desktopFilter w kwinDesktop screen this =
     getDesktop desktopFilter (currentActivity w) kwinDesktop screen this"

definition getDesktopForClient ::
  "DesktopFilter \<Rightarrow> KwinClient \<Rightarrow> DesktopManager \<Rightarrow> Desktop option \<times> DesktopManager" where
  "getDesktopForClient desktopFilter kwinClient this =
     (case (activities_client kwinClient, desktops_client kwinClient) of
        ([a], [d]) \<Rightarrow> getDesktop desktopFilter a d (output_client kwinClient) this
      | _ \<Rightarrow> (None, this))"

definition destroyDesktop ::
  "string \<Rightarrow> KwinDesktop \<Rightarrow> Output \<Rightarrow> DesktopManager \<Rightarrow> DesktopManager" where
  "destroyDesktop activity kwinDesktop screen this =
     (let desktopKey = getDesktopKey activity kwinDesktop screen;
          desktop = map_of (desktops this) desktopKey
      in (case desktop of
            Some d \<Rightarrow>
              this\<lparr>destroyed := destroyed this @ [inst d],
                   desktops := AList.delete desktopKey (desktops this)\<rparr>
          | None \<Rightarrow> this))"

definition removeActivity :: "string \<Rightarrow> DesktopManager \<Rightarrow> DesktopManager" where
  "removeActivity activity this =
     fold (\<lambda>kwinDesktop this.
             fold (\<lambda>screen this. destroyDesktop activity kwinDesktop screen this)
                  (kwinScreens this) this)
          (kwinDesktops this) this"

definition removeKwinDesktop :: "KwinDesktop \<Rightarrow> DesktopManager \<Rightarrow> DesktopManager" where
  "removeKwinDesktop kwinDesktop this =
     fold (\<lambda>activity this.
             fold (\<lambda>screen this. destroyDesktop activity kwinDesktop screen this)
                  (kwinScreens this) this)
          (kwinActivities this) this"

definition removeScreen :: "Output \<Rightarrow> DesktopManager \<Rightarrow> DesktopManager" where
  "removeScreen screen this =
     fold (\<lambda>activity this.
             fold (\<lambda>kwinDesktop this. destroyDesktop activity kwinDesktop screen this)
                  (kwinDesktops this) this)
          (kwinActivities this) this"

definition updateActivities :: "Workspace \<Rightarrow> DesktopManager \<Rightarrow> DesktopManager" where
  "updateActivities w this =
     (let newActivities = new_Set (activities w);
          this' = fold (\<lambda>activity this.
                          if activity \<notin> set newActivities
                          then removeActivity activity this else this)
                       (kwinActivities this) this
      in this'\<lparr>kwinActivities := newActivities\<rparr>)"

definition updateDesktops :: "Workspace \<Rightarrow> DesktopManager \<Rightarrow> DesktopManager" where
  "updateDesktops w this =
     (let newDesktops = new_Set (desktops_ws w);
          this' = fold (\<lambda>desktop this.
                          if desktop \<notin> set newDesktops
                          then removeKwinDesktop desktop this else this)
                       (kwinDesktops this) this
      in this'\<lparr>kwinDesktops := newDesktops\<rparr>)"

definition updateScreens :: "Workspace \<Rightarrow> DesktopManager \<Rightarrow> DesktopManager" where
  "updateScreens w this =
     (let newScreens = new_Set (screens w);
          this' = fold (\<lambda>screen this.
                          if screen \<notin> set newScreens
                          then removeScreen screen this else this)
                       (kwinScreens this) this
      in this'\<lparr>kwinScreens := newScreens\<rparr>)"

definition destroy :: "DesktopManager \<Rightarrow> DesktopManager" where
  "destroy this =
     fold (\<lambda>desktop this. this\<lparr>destroyed := destroyed this @ [inst desktop]\<rparr>)
          (map snd (desktops this)) this"

text \<open>
  The generators, run to completion: the sequence they yield, and the manager afterwards.
\<close>

definition getAllDesktops :: "DesktopManager \<Rightarrow> Desktop list \<times> DesktopManager" where
  "getAllDesktops this =
     fold (\<lambda>desktop (out, this). (out @ [desktop], this))
          (map snd (desktops this)) ([], this)"

definition lookupYield ::
  "string \<Rightarrow> KwinDesktop \<Rightarrow> Output \<Rightarrow> Desktop list \<times> DesktopManager
     \<Rightarrow> Desktop list \<times> DesktopManager" where
  "lookupYield activity kwinDesktop screen acc =
     (case acc of (out, this) \<Rightarrow>
        (let desktopKey = getDesktopKey activity kwinDesktop screen;
             desktop = map_of (desktops this) desktopKey
         in (case desktop of
               Some d \<Rightarrow> (out @ [d], this)
             | None \<Rightarrow> (out, this))))"

definition getDesktopsOnCurrentDesktopAndActivity ::
  "Workspace \<Rightarrow> DesktopManager \<Rightarrow> Desktop list \<times> DesktopManager" where
  "getDesktopsOnCurrentDesktopAndActivity w this =
     (let activity = currentActivity w;
          kwinDesktop = currentDesktop w
      in fold (\<lambda>screen acc. lookupYield activity kwinDesktop screen acc)
              (kwinScreens this) ([], this))"

fun getDesktops_activities ::
  "string list \<Rightarrow> KwinDesktop iterable \<Rightarrow> Desktop list \<times> DesktopManager
     \<Rightarrow> Desktop list \<times> DesktopManager" where
  "getDesktops_activities [] matchedDesktops acc = acc"
| "getDesktops_activities (matchedActivity # rest) matchedDesktops acc =
     (let (ds, matchedDesktops') = for_of matchedDesktops;
          acc' = fold (\<lambda>matchedDesktop acc.
                         fold (\<lambda>screen acc. lookupYield matchedActivity matchedDesktop screen acc)
                              (kwinScreens (snd acc)) acc)
                      ds acc
      in getDesktops_activities rest matchedDesktops' acc')"

definition getDesktops ::
  "string list \<Rightarrow> KwinDesktop list \<Rightarrow> DesktopManager \<Rightarrow> Desktop list \<times> DesktopManager" where
  "getDesktops activities' kwinDesktops' this =
     (let matchedActivities =
            (if length activities' > 0 then Array activities'
             else Iterator (kwinActivities this));
          matchedDesktops =
            (if length kwinDesktops' > 0 then Array kwinDesktops'
             else Iterator (kwinDesktops this))
      in getDesktops_activities (fst (for_of matchedActivities)) matchedDesktops ([], this))"

definition getDesktopsForClient ::
  "KwinClient \<Rightarrow> DesktopManager \<Rightarrow> Desktop list \<times> DesktopManager" where
  "getDesktopsForClient kwinClient this =
     getDesktops (activities_client kwinClient) (desktops_client kwinClient) this"

section \<open>Notions used in the statements and proofs\<close>

subsection \<open>Reconciliation passes and the coordinates they remove\<close>

text \<open>
  The three passes under one name, so that a statement can range over the dimension.
  A coordinate is removed by the pass of a dimension when all three of its components are
  in the cached snapshots and its component in that dimension is not in the host's set.
\<close>

datatype dimension = Activity | VirtualDesktop | Screen

definition reconcile :: "dimension \<Rightarrow> Workspace \<Rightarrow> DesktopManager \<Rightarrow> DesktopManager" where
  "reconcile dim w this =
     (case dim of
        Activity \<Rightarrow> updateActivities w this
      | VirtualDesktop \<Rightarrow> updateDesktops w this
      | Screen \<Rightarrow> updateScreens w this)"

definition removedCoordinate ::
  "dimension \<Rightarrow> Workspace \<Rightarrow> DesktopManager \<Rightarrow> string \<Rightarrow> KwinDesktop \<Rightarrow> Output \<Rightarrow> bool" where
  "removedCoordinate dim w this a d scr \<longleftrightarrow>
     a \<in> set (kwinActivities this) \<and> d \<in> set (kwinDesktops this) \<and> scr \<in> set (kwinScreens this)
     \<and> (case dim of
          Activity \<Rightarrow> a \<notin> set (activities w)
        | VirtualDesktop \<Rightarrow> d \<notin> set (desktops_ws w)
        | Screen \<Rightarrow> scr \<notin> set (screens w))"

definition removedKeys :: "dimension \<Rightarrow> Workspace \<Rightarrow> DesktopManager \<Rightarrow> string set" where
  "removedKeys dim w this =
     {getDesktopKey a d scr | a d scr. removedCoordinate dim w this a d scr}"

definition reconcileAll :: "Workspace \<Rightarrow> dimension list \<Rightarrow> DesktopManager \<Rightarrow> DesktopManager" where
  "reconcileAll w dims this = fold (\<lambda>dim this. reconcile dim w this) dims this"

text \<open>
  \<open>hostShrunk\<close>: no dimension of the host has gained a value since its snapshot was
  cached. A coordinate of the snapshots is stale when some component has left the host's
  set. \<open>staleEntriesInSnapshots\<close>: among the coordinates formed from the values of the
  snapshots and of the host's sets, each one that has lost a component on the host and
  whose key is the key of an entry lies inside the snapshots; no entry sits at a
  coordinate that joins a value gone from the host with a value the snapshots do not
  hold yet. \<open>snapshotsWithin\<close>: the snapshots of a later state hold values of the
  first state's snapshots and of the host's sets only.
\<close>

definition hostShrunk :: "Workspace \<Rightarrow> DesktopManager \<Rightarrow> bool" where
  "hostShrunk w this \<longleftrightarrow>
     set (activities w) \<subseteq> set (kwinActivities this)
   \<and> set (desktops_ws w) \<subseteq> set (kwinDesktops this)
   \<and> set (screens w) \<subseteq> set (kwinScreens this)"

definition staleCoordinate :: "Workspace \<Rightarrow> DesktopManager \<Rightarrow> string \<Rightarrow> KwinDesktop \<Rightarrow> Output \<Rightarrow> bool" where
  "staleCoordinate w this a d scr \<longleftrightarrow>
     a \<in> set (kwinActivities this) \<and> d \<in> set (kwinDesktops this) \<and> scr \<in> set (kwinScreens this)
     \<and> \<not> (a \<in> set (activities w) \<and> d \<in> set (desktops_ws w) \<and> scr \<in> set (screens w))"

definition staleKeys :: "Workspace \<Rightarrow> DesktopManager \<Rightarrow> string set" where
  "staleKeys w this = {getDesktopKey a d scr | a d scr. staleCoordinate w this a d scr}"

definition staleEntriesInSnapshots :: "Workspace \<Rightarrow> DesktopManager \<Rightarrow> bool" where
  "staleEntriesInSnapshots w this \<longleftrightarrow>
     (\<forall>a \<in> set (kwinActivities this @ activities w).
      \<forall>d \<in> set (kwinDesktops this @ desktops_ws w).
      \<forall>scr \<in> set (kwinScreens this @ screens w).
        getDesktopKey a d scr \<in> fst ` set (desktops this)
        \<and> \<not> (a \<in> set (activities w) \<and> d \<in> set (desktops_ws w) \<and> scr \<in> set (screens w))
        \<longrightarrow> a \<in> set (kwinActivities this) \<and> d \<in> set (kwinDesktops this)
            \<and> scr \<in> set (kwinScreens this))"

definition snapshotsWithin :: "Workspace \<Rightarrow> DesktopManager \<Rightarrow> DesktopManager \<Rightarrow> bool" where
  "snapshotsWithin w s0 s \<longleftrightarrow>
     set (kwinActivities s) \<subseteq> set (kwinActivities s0) \<union> set (activities w)
   \<and> set (kwinDesktops s) \<subseteq> set (kwinDesktops s0) \<union> set (desktops_ws w)
   \<and> set (kwinScreens s) \<subseteq> set (kwinScreens s0) \<union> set (screens w)"

subsection \<open>What a run of destroyDesktop calls does\<close>

text \<open>
  \<open>destroys K s s'\<close>: the state \<open>s'\<close> is \<open>s\<close> with the entries at the keys in \<open>K\<close>
  deleted, and \<open>destroy\<close> invoked on instances of deleted entries only, on each of them
  once when the keys of the map are distinct. The snapshots are not constrained.
\<close>

definition keysOf :: "string set \<Rightarrow> KwinDesktop set \<Rightarrow> Output set \<Rightarrow> string set" where
  "keysOf A D S = {getDesktopKey a d scr | a d scr. a \<in> A \<and> d \<in> D \<and> scr \<in> S}"

definition destroys :: "string set \<Rightarrow> DesktopManager \<Rightarrow> DesktopManager \<Rightarrow> bool" where
  "destroys K s s' \<longleftrightarrow>
     desktops s' = filter (\<lambda>p. fst p \<notin> K) (desktops s)
   \<and> constructed s' = constructed s
   \<and> (\<exists>L. destroyed s' = destroyed s @ L
          \<and> set L \<subseteq> (inst \<circ> snd) ` {p \<in> set (desktops s). fst p \<in> K}
          \<and> (distinct (map fst (desktops s))
               \<longrightarrow> mset L = mset (map (inst \<circ> snd) (filter (\<lambda>p. fst p \<in> K) (desktops s)))))"

subsection \<open>What the generators yield\<close>

definition entryAt :: "DesktopManager \<Rightarrow> string \<Rightarrow> KwinDesktop \<Rightarrow> Output \<Rightarrow> Desktop list" where
  "entryAt this a d scr =
     (case map_of (desktops this) (getDesktopKey a d scr) of Some e \<Rightarrow> [e] | None \<Rightarrow> [])"

definition yieldedFor :: "DesktopManager \<Rightarrow> string \<Rightarrow> KwinDesktop list \<Rightarrow> Desktop list" where
  "yieldedFor this a ds =
     concat (map (\<lambda>d. concat (map (\<lambda>scr. entryAt this a d scr) (kwinScreens this))) ds)"

subsection \<open>Sequences of calls\<close>


text \<open>
  Histories of the manager: the calls of its public methods that change it, and the
  changes of the host's \<open>Workspace\<close> between them. \<open>callsValid\<close> says that every
  \<open>getDesktop\<close> call of a history is given an activity, a desktop and a screen that the
  host has at that moment. \<open>createdBy\<close> describes the entry that \<open>getDesktop\<close> inserts
  in a state where the key is absent.
\<close>

datatype event =
    GetDesktop string KwinDesktop Output
  | UpdateActivities
  | UpdateDesktops
  | UpdateScreens
  | Destroy
  | HostChange Workspace

fun exec :: "DesktopFilter \<Rightarrow> event \<Rightarrow> Workspace \<times> DesktopManager \<Rightarrow> Workspace \<times> DesktopManager" where
  "exec f (GetDesktop a d scr) (w, this) = (w, snd (getDesktop f a d scr this))"
| "exec f UpdateActivities (w, this) = (w, updateActivities w this)"
| "exec f UpdateDesktops (w, this) = (w, updateDesktops w this)"
| "exec f UpdateScreens (w, this) = (w, updateScreens w this)"
| "exec f Destroy (w, this) = (w, destroy this)"
| "exec f (HostChange w') (w, this) = (w', this)"

definition run :: "DesktopFilter \<Rightarrow> event list \<Rightarrow> Workspace \<times> DesktopManager \<Rightarrow> Workspace \<times> DesktopManager" where
  "run f evs st = fold (exec f) evs st"

definition initial :: "Workspace \<Rightarrow> Workspace \<times> DesktopManager" where
  "initial w = (w, constructor w)"

definition hostValid :: "Workspace \<Rightarrow> string \<Rightarrow> KwinDesktop \<Rightarrow> Output \<Rightarrow> bool" where
  "hostValid w a d scr \<longleftrightarrow>
     a \<in> set (activities w) \<and> d \<in> set (desktops_ws w) \<and> scr \<in> set (screens w)"

fun callValid :: "event \<Rightarrow> Workspace \<Rightarrow> bool" where
  "callValid (GetDesktop a d scr) w = hostValid w a d scr"
| "callValid UpdateActivities w = True"
| "callValid UpdateDesktops w = True"
| "callValid UpdateScreens w = True"
| "callValid Destroy w = True"
| "callValid (HostChange w') w = True"

fun callsValid :: "DesktopFilter \<Rightarrow> event list \<Rightarrow> Workspace \<times> DesktopManager \<Rightarrow> bool" where
  "callsValid f [] st = True"
| "callsValid f (ev # evs) st = (callValid ev (fst st) \<and> callsValid f evs (exec f ev st))"

definition createdBy ::
  "DesktopFilter \<Rightarrow> Workspace \<times> DesktopManager \<Rightarrow> string \<Rightarrow> KwinDesktop \<Rightarrow> Output
     \<Rightarrow> string \<Rightarrow> Desktop \<Rightarrow> bool" where
  "createdBy f st a d scr k e \<longleftrightarrow>
     k = getDesktopKey a d scr
   \<and> e = \<lparr>inst = constructed (snd st), kwinDesktop_of = d, screen_of = scr\<rparr>
   \<and> shouldWorkOnDesktop f d
   \<and> map_of (desktops (snd st)) k = None"

subsection \<open>Well-formed states\<close>

text \<open>
  The keys of a JavaScript \<open>Map\<close> are distinct; the \<open>Desktop\<close> objects held by the map
  are different objects, each constructed by this manager.
\<close>

definition wellFormed :: "DesktopManager \<Rightarrow> bool" where
  "wellFormed this \<longleftrightarrow>
     distinct (map fst (desktops this))
   \<and> distinct (map (inst \<circ> snd) (desktops this))
   \<and> (\<forall>p \<in> set (desktops this). inst (snd p) < constructed this)
   \<and> (\<forall>i \<in> set (destroyed this). i < constructed this)"

definition noneDestroyed :: "DesktopManager \<Rightarrow> bool" where
  "noneDestroyed this \<longleftrightarrow> (\<forall>p \<in> set (desktops this). inst (snd p) \<notin> set (destroyed this))"

subsection \<open>An example host\<close>

text \<open>
  Two activities, one virtual desktop \<open>d1\<close>, one screen \<open>HDMI-1\<close>; a second desktop
  and a second screen that the host may add later; a filter that rejects the desktop
  \<open>d9\<close>. \<open>exTwo\<close> is the manager after construction and two lookups. \<open>exFour\<close> is the
  manager of a host with two desktops after four lookups; \<open>exHostLater\<close> is the host
  after it has lost the activity \<open>B\<close> and the desktop \<open>d2\<close> and gained the desktop
  \<open>d3\<close> and the screen \<open>DP-1\<close>.
\<close>

abbreviation exD1 :: KwinDesktop where "exD1 \<equiv> \<lparr>ref_desktop = 1, id_desktop = ''d1''\<rparr>"
abbreviation exD2 :: KwinDesktop where "exD2 \<equiv> \<lparr>ref_desktop = 2, id_desktop = ''d2''\<rparr>"
abbreviation exS1 :: Output where "exS1 \<equiv> \<lparr>ref_output = 1, name = ''HDMI-1''\<rparr>"
abbreviation exS2 :: Output where "exS2 \<equiv> \<lparr>ref_output = 2, name = ''DP-1''\<rparr>"
abbreviation exFilter :: DesktopFilter where "exFilter \<equiv> \<lparr>shouldWorkOnDesktop = (\<lambda>d. id_desktop d \<noteq> ''d9'')\<rparr>"
abbreviation exHost :: Workspace where
  "exHost \<equiv> \<lparr>activities = [''A'', ''B''], desktops_ws = [exD1], screens = [exS1],
             currentActivity = ''A'', currentDesktop = exD1, activeScreen = exS1\<rparr>"

definition exTwo :: DesktopManager where
  "exTwo = snd (getDesktop exFilter ''B'' exD1 exS1
              (snd (getDesktop exFilter ''A'' exD1 exS1 (constructor exHost))))"

abbreviation exD3 :: KwinDesktop where "exD3 \<equiv> \<lparr>ref_desktop = 3, id_desktop = ''d3''\<rparr>"

definition exFour :: DesktopManager where
  "exFour = snd (getDesktop exFilter ''B'' exD2 exS1
             (snd (getDesktop exFilter ''A'' exD2 exS1
               (snd (getDesktop exFilter ''B'' exD1 exS1
                 (snd (getDesktop exFilter ''A'' exD1 exS1
                   (constructor (exHost\<lparr>desktops_ws := [exD1, exD2]\<rparr>)))))))))"

abbreviation exHostLater :: Workspace where
  "exHostLater \<equiv> exHost\<lparr>activities := [''A''], desktops_ws := [exD1, exD3], screens := [exS1, exS2]\<rparr>"

section \<open>Properties\<close>

subsection \<open>Evaluating the model on the example\<close>

lemmas run_defs =
  constructor_def new_Set_def Set_add_def getDesktop_def addDesktop_def getDesktopKey_def
  destroyDesktop_def removeActivity_def removeKwinDesktop_def removeScreen_def
  updateActivities_def updateDesktops_def updateScreens_def Let_def

lemma exTwo_eq:
  "exTwo = \<lparr>desktops = [(''A|d1|HDMI-1'', \<lparr>inst = 0, kwinDesktop_of = exD1, screen_of = exS1\<rparr>),
                        (''B|d1|HDMI-1'', \<lparr>inst = 1, kwinDesktop_of = exD1, screen_of = exS1\<rparr>)],
            kwinActivities = [''A'', ''B''], kwinDesktops = [exD1], kwinScreens = [exS1],
            constructed = 2, destroyed = []\<rparr>"
  by (simp add: exTwo_def run_defs)

subsection \<open>Sets\<close>

lemma set_foldl_Set_add: "set (foldl Set_add acc xs) = set acc \<union> set xs"
  by (induction xs arbitrary: acc) (auto simp: Set_add_def)

lemma set_new_Set: "set (new_Set xs) = set xs"
  by (simp add: new_Set_def set_foldl_Set_add)

lemma distinct_foldl_Set_add: "distinct acc \<Longrightarrow> distinct (foldl Set_add acc xs)"
  by (induction xs arbitrary: acc) (auto simp: Set_add_def)

lemma distinct_new_Set: "distinct (new_Set xs)"
  by (simp add: new_Set_def distinct_foldl_Set_add)

subsection \<open>Keys\<close>

lemma split_at_separator:
  "c \<notin> set xs \<Longrightarrow> c \<notin> set xs' \<Longrightarrow> xs @ c # ys = xs' @ c # ys' \<Longrightarrow> xs = xs' \<and> ys = ys'"
proof (induction xs arbitrary: xs')
  case Nil
  then show ?case by (cases xs') auto
next
  case (Cons x xs)
  then show ?case by (cases xs') auto
qed

text \<open>
  Claim C3, as amended. \<open>getDesktopKey\<close> joins the three components with the separator
  \<open>|\<close>. When neither activity and neither desktop id contains the separator, two keys
  are equal exactly when the activities, the desktop ids and the screen names are equal.
  The screen name is the rest of the key after the second separator and may contain
  anything.
\<close>

theorem getDesktopKey_injective:
  assumes "CHR ''|'' \<notin> set a" and "CHR ''|'' \<notin> set a'"
    and "CHR ''|'' \<notin> set (id_desktop d)" and "CHR ''|'' \<notin> set (id_desktop d')"
  shows "(getDesktopKey a d scr = getDesktopKey a' d' scr')
         = (a = a' \<and> id_desktop d = id_desktop d' \<and> name scr = name scr')"
proof
  assume eq: "getDesktopKey a d scr = getDesktopKey a' d' scr'"
  then have "a @ CHR ''|'' # (id_desktop d @ ''|'' @ name scr)
           = a' @ CHR ''|'' # (id_desktop d' @ ''|'' @ name scr')"
    by (simp add: getDesktopKey_def)
  from split_at_separator [OF assms(1,2) this]
  have a: "a = a'" and rest: "id_desktop d @ CHR ''|'' # name scr = id_desktop d' @ CHR ''|'' # name scr'"
    by simp_all
  from split_at_separator [OF assms(3,4) rest] a
  show "a = a' \<and> id_desktop d = id_desktop d' \<and> name scr = name scr'" by simp
next
  assume "a = a' \<and> id_desktop d = id_desktop d' \<and> name scr = name scr'"
  then show "getDesktopKey a d scr = getDesktopKey a' d' scr'"
    by (simp add: getDesktopKey_def)
qed

theorem getDesktopKey_injective_witness:
  "(getDesktopKey ''A'' \<lparr>ref_desktop = 1, id_desktop = ''d1''\<rparr> \<lparr>ref_output = 1, name = ''HDMI|1''\<rparr>
    = getDesktopKey ''A'' \<lparr>ref_desktop = 2, id_desktop = ''d1''\<rparr> \<lparr>ref_output = 2, name = ''HDMI|1''\<rparr>)
   = (''A'' = ''A'' \<and> ''d1'' = ''d1'' \<and> ''HDMI|1'' = ''HDMI|1'')"
  using getDesktopKey_injective [of "''A''" "''A''"
      "\<lparr>ref_desktop = 1, id_desktop = ''d1''\<rparr>" "\<lparr>ref_desktop = 2, id_desktop = ''d1''\<rparr>"
      "\<lparr>ref_output = 1, name = ''HDMI|1''\<rparr>" "\<lparr>ref_output = 2, name = ''HDMI|1''\<rparr>"]
  by simp

text \<open>
  Claim C3 as stated (for all component strings) fails: the activity \<open>a|b\<close> with desktop
  id \<open>c\<close> and the activity \<open>a\<close> with desktop id \<open>b|c\<close> have the same key
  \<open>a|b|c|s\<close>, although the activities and the desktop ids differ.
\<close>

theorem getDesktopKey_collision:
  "\<not> ((getDesktopKey ''a|b'' \<lparr>ref_desktop = 1, id_desktop = ''c''\<rparr> \<lparr>ref_output = 1, name = ''s''\<rparr>
        = getDesktopKey ''a'' \<lparr>ref_desktop = 2, id_desktop = ''b|c''\<rparr> \<lparr>ref_output = 1, name = ''s''\<rparr>)
       = (''a|b'' = ''a''
          \<and> id_desktop \<lparr>ref_desktop = 1, id_desktop = ''c''\<rparr> = id_desktop \<lparr>ref_desktop = 2, id_desktop = ''b|c''\<rparr>
          \<and> name \<lparr>ref_output = 1, name = ''s''\<rparr> = name \<lparr>ref_output = 1, name = ''s''\<rparr>))"
  by (simp add: getDesktopKey_def)

subsection \<open>Lookup and lazy creation\<close>

lemma getAllDesktops_fold:
  "fold (\<lambda>desktop (out, this). (out @ [desktop], this)) ds (out0, s) = (out0 @ ds, s)"
  by (induction ds arbitrary: out0) auto

lemma getAllDesktops_eq: "getAllDesktops this = (map snd (desktops this), this)"
  by (simp add: getAllDesktops_def getAllDesktops_fold)

text \<open>
  Claim C6. When \<open>shouldWorkOnDesktop\<close> rejects the desktop, \<open>getDesktop\<close> returns
  \<open>undefined\<close> (\<open>None\<close>) for every activity and screen and leaves the manager as it
  was; in particular \<open>getAllDesktops\<close> yields as many entries after the call as before.
\<close>

theorem getDesktop_filtered:
  assumes "\<not> shouldWorkOnDesktop desktopFilter d"
  shows "getDesktop desktopFilter a d scr this = (None, this)
       \<and> length (fst (getAllDesktops (snd (getDesktop desktopFilter a d scr this))))
         = length (fst (getAllDesktops this))"
  using assms by (simp add: getDesktop_def)

theorem getDesktop_filtered_witness:
  "\<not> shouldWorkOnDesktop exFilter \<lparr>ref_desktop = 9, id_desktop = ''d9''\<rparr>
   \<and> getDesktop exFilter ''A'' \<lparr>ref_desktop = 9, id_desktop = ''d9''\<rparr> exS1 exTwo = (None, exTwo)
   \<and> length (fst (getAllDesktops (snd (getDesktop exFilter ''A'' \<lparr>ref_desktop = 9, id_desktop = ''d9''\<rparr> exS1 exTwo)))) = 2"
proof -
  have h: "\<not> shouldWorkOnDesktop exFilter \<lparr>ref_desktop = 9, id_desktop = ''d9''\<rparr>" by simp
  have "length (fst (getAllDesktops exTwo)) = 2" by (simp add: exTwo_eq getAllDesktops_eq)
  with getDesktop_filtered [OF h, of "''A''" exS1 exTwo] h show ?thesis by simp
qed

lemma update_absent: "map_of al k = None \<Longrightarrow> AList.update k v al = al @ [(k, v)]"
  by (induction al) (auto split: if_splits)

lemma getDesktop_rejected:
  "\<not> shouldWorkOnDesktop f d \<Longrightarrow> getDesktop f a d scr s = (None, s)"
  by (simp add: getDesktop_def)

lemma getDesktop_cached:
  "shouldWorkOnDesktop f d \<Longrightarrow> map_of (desktops s) (getDesktopKey a d scr) = Some e
   \<Longrightarrow> getDesktop f a d scr s = (Some e, s)"
  by (simp add: getDesktop_def)

lemma getDesktop_created:
  "shouldWorkOnDesktop f d \<Longrightarrow> map_of (desktops s) (getDesktopKey a d scr) = None
   \<Longrightarrow> getDesktop f a d scr s
       = (Some \<lparr>inst = constructed s, kwinDesktop_of = d, screen_of = scr\<rparr>,
          s\<lparr>constructed := Suc (constructed s),
            desktops := desktops s @ [(getDesktopKey a d scr,
                          \<lparr>inst = constructed s, kwinDesktop_of = d, screen_of = scr\<rparr>)]\<rparr>)"
  by (simp add: getDesktop_def addDesktop_def Let_def update_absent)









subsection \<open>Destroying entries\<close>

lemma destroyDesktop_snapshots [simp]:
  "kwinActivities (destroyDesktop a d scr s) = kwinActivities s"
  "kwinDesktops (destroyDesktop a d scr s) = kwinDesktops s"
  "kwinScreens (destroyDesktop a d scr s) = kwinScreens s"
  by (simp_all add: destroyDesktop_def Let_def split: option.split)

lemma filter_key_absent:
  "k \<notin> fst ` set al \<Longrightarrow> filter (\<lambda>p. fst p \<noteq> k) al = al"
  by (induction al) auto

lemma filter_key_distinct:
  "distinct (map fst al) \<Longrightarrow> map_of al k = Some e \<Longrightarrow>
   mset (map f (filter (\<lambda>p. fst p = k) al)) = {#f (k, e)#}"
  by (induction al) (auto simp: rev_image_eqI dest: map_of_SomeD split: if_splits)

lemma delete_as_filter: "AList.delete k al = filter (\<lambda>p. fst p \<noteq> k) al"
  by (induction al) auto

lemma destroys_empty: "destroys {} s s"
  by (simp add: destroys_def)

lemma destroys_destroyDesktop:
  "destroys {getDesktopKey a d scr} s (destroyDesktop a d scr s)"
proof (cases "map_of (desktops s) (getDesktopKey a d scr)")
  case None
  then have "getDesktopKey a d scr \<notin> fst ` set (desktops s)"
    by (simp add: map_of_eq_None_iff)
  with None show ?thesis
    by (auto simp: destroys_def destroyDesktop_def filter_key_absent)
next
  case (Some e)
  then have mem: "(getDesktopKey a d scr, e) \<in> set (desktops s)"
    by (rule map_of_SomeD)
  have "desktops (destroyDesktop a d scr s)
        = filter (\<lambda>p. fst p \<noteq> getDesktopKey a d scr) (desktops s)"
    using Some by (simp add: destroyDesktop_def delete_as_filter)
  moreover have "destroyed (destroyDesktop a d scr s) = destroyed s @ [inst e]"
    using Some by (simp add: destroyDesktop_def)
  moreover have "constructed (destroyDesktop a d scr s) = constructed s"
    using Some by (simp add: destroyDesktop_def)
  moreover have "set [inst e] \<subseteq> (inst \<circ> snd) ` {p \<in> set (desktops s). fst p \<in> {getDesktopKey a d scr}}"
    using mem by force
  moreover have "distinct (map fst (desktops s)) \<Longrightarrow>
      mset [inst e] = mset (map (inst \<circ> snd) (filter (\<lambda>p. fst p \<in> {getDesktopKey a d scr}) (desktops s)))"
    using filter_key_distinct [OF _ Some, of "inst \<circ> snd"] by simp
  ultimately show ?thesis
    unfolding destroys_def by (intro conjI exI [of _ "[inst e]"]) simp_all
qed

lemma mset_filter_split:
  "mset (map f (filter P xs)) + mset (map f (filter (\<lambda>x. \<not> P x \<and> Q x) xs))
   = mset (map f (filter (\<lambda>x. P x \<or> Q x) xs))"
  by (induction xs) auto

lemma destroys_trans:
  assumes "destroys K1 s s1" and "destroys K2 s1 s2"
  shows "destroys (K1 \<union> K2) s s2"
proof -
  let ?al = "desktops s"
  from assms(1) obtain L1 where
    d1: "desktops s1 = filter (\<lambda>p. fst p \<notin> K1) ?al" and c1: "constructed s1 = constructed s"
    and l1: "destroyed s1 = destroyed s @ L1"
    and s1: "set L1 \<subseteq> (inst \<circ> snd) ` {p \<in> set ?al. fst p \<in> K1}"
    and m1: "distinct (map fst ?al) \<longrightarrow> mset L1 = mset (map (inst \<circ> snd) (filter (\<lambda>p. fst p \<in> K1) ?al))"
    unfolding destroys_def by blast
  from assms(2) obtain L2 where
    d2: "desktops s2 = filter (\<lambda>p. fst p \<notin> K2) (desktops s1)" and c2: "constructed s2 = constructed s1"
    and l2: "destroyed s2 = destroyed s1 @ L2"
    and s2: "set L2 \<subseteq> (inst \<circ> snd) ` {p \<in> set (desktops s1). fst p \<in> K2}"
    and m2: "distinct (map fst (desktops s1)) \<longrightarrow>
             mset L2 = mset (map (inst \<circ> snd) (filter (\<lambda>p. fst p \<in> K2) (desktops s1)))"
    unfolding destroys_def by blast
  have a: "desktops s2 = filter (\<lambda>p. fst p \<notin> K1 \<union> K2) ?al"
    using d1 d2 by (simp add: conj_commute)
  have b: "destroyed s2 = destroyed s @ (L1 @ L2)" using l1 l2 by simp
  have c: "set (L1 @ L2) \<subseteq> (inst \<circ> snd) ` {p \<in> set ?al. fst p \<in> K1 \<union> K2}"
    using s1 s2 d1 by auto
  have d: "mset (L1 @ L2) = mset (map (inst \<circ> snd) (filter (\<lambda>p. fst p \<in> K1 \<union> K2) ?al))"
    if dist: "distinct (map fst ?al)"
  proof -
    have "distinct (map fst (desktops s1))" using dist d1 by (simp add: distinct_map_filter)
    with m2 d1 have "mset L2 = mset (map (inst \<circ> snd)
        (filter (\<lambda>p. fst p \<in> K2) (filter (\<lambda>p. \<not> fst p \<in> K1) ?al)))" by simp
    moreover from m1 dist have "mset L1 = mset (map (inst \<circ> snd) (filter (\<lambda>p. fst p \<in> K1) ?al))"
      by simp
    ultimately show ?thesis
      using mset_filter_split [of "inst \<circ> snd" "\<lambda>p. fst p \<in> K1" ?al "\<lambda>p. fst p \<in> K2"]
      by simp
  qed
  show ?thesis
    unfolding destroys_def using a b c d c1 c2 by (intro conjI exI [of _ "L1 @ L2"]) simp_all
qed

lemma keysOf_empty [simp]:
  "keysOf {} D S = {}" "keysOf A {} S = {}" "keysOf A D {} = {}"
  by (auto simp: keysOf_def)

lemma keysOf_insert_screen:
  "keysOf {a} {d} (insert x S) = {getDesktopKey a d x} \<union> keysOf {a} {d} S"
  by (auto simp: keysOf_def)

lemma keysOf_insert_desktop:
  "keysOf {a} (insert x D) {scr} = {getDesktopKey a x scr} \<union> keysOf {a} D {scr}"
  by (auto simp: keysOf_def)

lemma destroys_fold_screens:
  "destroys (keysOf {a} {d} (set scrs)) s (fold (\<lambda>screen this. destroyDesktop a d screen this) scrs s)"
proof (induction scrs arbitrary: s)
  case Nil
  show ?case by (simp add: destroys_empty)
next
  case (Cons x scrs)
  from destroys_trans [OF destroys_destroyDesktop Cons.IH]
  show ?case by (simp add: keysOf_insert_screen)
qed

lemma destroys_fold_desktops:
  "destroys (keysOf {a} (set ds) {scr}) s (fold (\<lambda>kwinDesktop this. destroyDesktop a kwinDesktop scr this) ds s)"
proof (induction ds arbitrary: s)
  case Nil
  show ?case by (simp add: destroys_empty)
next
  case (Cons x ds)
  from destroys_trans [OF destroys_destroyDesktop Cons.IH]
  show ?case by (simp add: keysOf_insert_desktop)
qed

lemma fold_snapshots:
  assumes "\<And>x s. kwinActivities (f x s) = kwinActivities s"
    and "\<And>x s. kwinDesktops (f x s) = kwinDesktops s"
    and "\<And>x s. kwinScreens (f x s) = kwinScreens s"
  shows "kwinActivities (fold f xs s) = kwinActivities s
       \<and> kwinDesktops (fold f xs s) = kwinDesktops s
       \<and> kwinScreens (fold f xs s) = kwinScreens s"
  by (induction xs arbitrary: s) (simp_all add: assms)

lemma fold_screens_snapshots [simp]:
  "kwinActivities (fold (\<lambda>screen this. destroyDesktop a d screen this) scrs s) = kwinActivities s"
  "kwinDesktops (fold (\<lambda>screen this. destroyDesktop a d screen this) scrs s) = kwinDesktops s"
  "kwinScreens (fold (\<lambda>screen this. destroyDesktop a d screen this) scrs s) = kwinScreens s"
  using fold_snapshots [of "\<lambda>screen this. destroyDesktop a d screen this" scrs s] by simp_all

lemma fold_desktops_snapshots [simp]:
  "kwinActivities (fold (\<lambda>kwinDesktop this. destroyDesktop a kwinDesktop scr this) ds s) = kwinActivities s"
  "kwinDesktops (fold (\<lambda>kwinDesktop this. destroyDesktop a kwinDesktop scr this) ds s) = kwinDesktops s"
  "kwinScreens (fold (\<lambda>kwinDesktop this. destroyDesktop a kwinDesktop scr this) ds s) = kwinScreens s"
  using fold_snapshots [of "\<lambda>kwinDesktop this. destroyDesktop a kwinDesktop scr this" ds s] by simp_all

lemma removeActivity_snapshots [simp]:
  "kwinActivities (removeActivity a s) = kwinActivities s"
  "kwinDesktops (removeActivity a s) = kwinDesktops s"
  "kwinScreens (removeActivity a s) = kwinScreens s"
  unfolding removeActivity_def
  using fold_snapshots [of "\<lambda>kwinDesktop this.
      fold (\<lambda>screen this. destroyDesktop a kwinDesktop screen this) (kwinScreens this) this"
      "kwinDesktops s" s]
  by simp_all

lemma removeKwinDesktop_snapshots [simp]:
  "kwinActivities (removeKwinDesktop d s) = kwinActivities s"
  "kwinDesktops (removeKwinDesktop d s) = kwinDesktops s"
  "kwinScreens (removeKwinDesktop d s) = kwinScreens s"
  unfolding removeKwinDesktop_def
  using fold_snapshots [of "\<lambda>activity this.
      fold (\<lambda>screen this. destroyDesktop activity d screen this) (kwinScreens this) this"
      "kwinActivities s" s]
  by simp_all

lemma removeScreen_snapshots [simp]:
  "kwinActivities (removeScreen scr s) = kwinActivities s"
  "kwinDesktops (removeScreen scr s) = kwinDesktops s"
  "kwinScreens (removeScreen scr s) = kwinScreens s"
  unfolding removeScreen_def
  using fold_snapshots [of "\<lambda>activity this.
      fold (\<lambda>kwinDesktop this. destroyDesktop activity kwinDesktop scr this) (kwinDesktops this) this"
      "kwinActivities s" s]
  by simp_all

text \<open>A loop whose body destroys a set of keys that depends on the element and on the
  snapshots only destroys the union of these sets.\<close>

lemma destroys_fold:
  assumes body: "\<And>x s. destroys (K x (kwinActivities s) (kwinDesktops s) (kwinScreens s)) s (f x s)"
    and snap: "\<And>x s. kwinActivities (f x s) = kwinActivities s"
      "\<And>x s. kwinDesktops (f x s) = kwinDesktops s"
      "\<And>x s. kwinScreens (f x s) = kwinScreens s"
  shows "destroys (\<Union>x\<in>set xs. K x (kwinActivities s) (kwinDesktops s) (kwinScreens s)) s (fold f xs s)"
proof (induction xs arbitrary: s)
  case Nil
  show ?case by (simp add: destroys_empty)
next
  case (Cons x xs)
  from destroys_trans [OF body [of x s] Cons.IH [of "f x s"]]
  show ?case by (simp add: snap)
qed

lemma destroys_removeActivity:
  "destroys (keysOf {a} (set (kwinDesktops s)) (set (kwinScreens s))) s (removeActivity a s)"
proof -
  have "destroys (\<Union>d\<in>set (kwinDesktops s). keysOf {a} {d} (set (kwinScreens s))) s (removeActivity a s)"
    unfolding removeActivity_def
    by (rule destroys_fold [where K = "\<lambda>d A D S. keysOf {a} {d} (set S)"])
       (simp_all add: destroys_fold_screens)
  moreover have "(\<Union>d\<in>set (kwinDesktops s). keysOf {a} {d} (set (kwinScreens s)))
               = keysOf {a} (set (kwinDesktops s)) (set (kwinScreens s))"
    by (auto simp: keysOf_def)
  ultimately show ?thesis by simp
qed

lemma destroys_removeKwinDesktop:
  "destroys (keysOf (set (kwinActivities s)) {d} (set (kwinScreens s))) s (removeKwinDesktop d s)"
proof -
  have "destroys (\<Union>a\<in>set (kwinActivities s). keysOf {a} {d} (set (kwinScreens s))) s (removeKwinDesktop d s)"
    unfolding removeKwinDesktop_def
    by (rule destroys_fold [where K = "\<lambda>a A D S. keysOf {a} {d} (set S)"])
       (simp_all add: destroys_fold_screens)
  moreover have "(\<Union>a\<in>set (kwinActivities s). keysOf {a} {d} (set (kwinScreens s)))
               = keysOf (set (kwinActivities s)) {d} (set (kwinScreens s))"
    by (auto simp: keysOf_def)
  ultimately show ?thesis by simp
qed

lemma destroys_removeScreen:
  "destroys (keysOf (set (kwinActivities s)) (set (kwinDesktops s)) {scr}) s (removeScreen scr s)"
proof -
  have "destroys (\<Union>a\<in>set (kwinActivities s). keysOf {a} (set (kwinDesktops s)) {scr}) s (removeScreen scr s)"
    unfolding removeScreen_def
    by (rule destroys_fold [where K = "\<lambda>a A D S. keysOf {a} (set D) {scr}"])
       (simp_all add: destroys_fold_desktops)
  moreover have "(\<Union>a\<in>set (kwinActivities s). keysOf {a} (set (kwinDesktops s)) {scr})
               = keysOf (set (kwinActivities s)) (set (kwinDesktops s)) {scr}"
    by (auto simp: keysOf_def)
  ultimately show ?thesis by simp
qed

lemma destroys_snapshot_update:
  "destroys K s s' \<Longrightarrow> destroys K s (s'\<lparr>kwinActivities := A\<rparr>)"
  "destroys K s s' \<Longrightarrow> destroys K s (s'\<lparr>kwinDesktops := D\<rparr>)"
  "destroys K s s' \<Longrightarrow> destroys K s (s'\<lparr>kwinScreens := S\<rparr>)"
  by (simp_all add: destroys_def)

lemma destroys_updateActivities:
  "destroys (keysOf (set (kwinActivities s) - set (activities w))
                    (set (kwinDesktops s)) (set (kwinScreens s))) s (updateActivities w s)"
proof -
  let ?N = "set (activities w)"
  let ?f = "\<lambda>activity this. if activity \<notin> ?N then removeActivity activity this else this"
  have "destroys (\<Union>a\<in>set (kwinActivities s).
            if a \<notin> ?N then keysOf {a} (set (kwinDesktops s)) (set (kwinScreens s)) else {})
          s (fold ?f (kwinActivities s) s)"
    by (rule destroys_fold [where K = "\<lambda>a A D S. if a \<notin> ?N then keysOf {a} (set D) (set S) else {}"])
       (simp_all add: destroys_removeActivity destroys_empty)
  moreover have "(\<Union>a\<in>set (kwinActivities s).
            if a \<notin> ?N then keysOf {a} (set (kwinDesktops s)) (set (kwinScreens s)) else {})
        = keysOf (set (kwinActivities s) - ?N) (set (kwinDesktops s)) (set (kwinScreens s))"
    by (auto simp: keysOf_def split: if_splits)
  ultimately show ?thesis
    by (simp add: updateActivities_def Let_def set_new_Set destroys_snapshot_update)
qed

lemma destroys_updateDesktops:
  "destroys (keysOf (set (kwinActivities s)) (set (kwinDesktops s) - set (desktops_ws w))
                    (set (kwinScreens s))) s (updateDesktops w s)"
proof -
  let ?N = "set (desktops_ws w)"
  let ?f = "\<lambda>desktop this. if desktop \<notin> ?N then removeKwinDesktop desktop this else this"
  have "destroys (\<Union>d\<in>set (kwinDesktops s).
            if d \<notin> ?N then keysOf (set (kwinActivities s)) {d} (set (kwinScreens s)) else {})
          s (fold ?f (kwinDesktops s) s)"
    by (rule destroys_fold [where K = "\<lambda>d A D S. if d \<notin> ?N then keysOf (set A) {d} (set S) else {}"])
       (simp_all add: destroys_removeKwinDesktop destroys_empty)
  moreover have "(\<Union>d\<in>set (kwinDesktops s).
            if d \<notin> ?N then keysOf (set (kwinActivities s)) {d} (set (kwinScreens s)) else {})
        = keysOf (set (kwinActivities s)) (set (kwinDesktops s) - ?N) (set (kwinScreens s))"
    by (auto simp: keysOf_def split: if_splits)
  ultimately show ?thesis
    by (simp add: updateDesktops_def Let_def set_new_Set destroys_snapshot_update)
qed

lemma destroys_updateScreens:
  "destroys (keysOf (set (kwinActivities s)) (set (kwinDesktops s))
                    (set (kwinScreens s) - set (screens w))) s (updateScreens w s)"
proof -
  let ?N = "set (screens w)"
  let ?f = "\<lambda>screen this. if screen \<notin> ?N then removeScreen screen this else this"
  have "destroys (\<Union>x\<in>set (kwinScreens s).
            if x \<notin> ?N then keysOf (set (kwinActivities s)) (set (kwinDesktops s)) {x} else {})
          s (fold ?f (kwinScreens s) s)"
    by (rule destroys_fold [where K = "\<lambda>x A D S. if x \<notin> ?N then keysOf (set A) (set D) {x} else {}"])
       (simp_all add: destroys_removeScreen destroys_empty)
  moreover have "(\<Union>x\<in>set (kwinScreens s).
            if x \<notin> ?N then keysOf (set (kwinActivities s)) (set (kwinDesktops s)) {x} else {})
        = keysOf (set (kwinActivities s)) (set (kwinDesktops s)) (set (kwinScreens s) - ?N)"
    by (auto simp: keysOf_def split: if_splits)
  ultimately show ?thesis
    by (simp add: updateScreens_def Let_def set_new_Set destroys_snapshot_update)
qed

lemma fold_if_snapshots:
  assumes "\<And>x s. kwinActivities (g x s) = kwinActivities s"
    and "\<And>x s. kwinDesktops (g x s) = kwinDesktops s"
    and "\<And>x s. kwinScreens (g x s) = kwinScreens s"
  shows "kwinActivities (fold (\<lambda>x s. if x \<notin> N then g x s else s) xs s) = kwinActivities s"
    and "kwinDesktops (fold (\<lambda>x s. if x \<notin> N then g x s else s) xs s) = kwinDesktops s"
    and "kwinScreens (fold (\<lambda>x s. if x \<notin> N then g x s else s) xs s) = kwinScreens s"
  using fold_snapshots [of "\<lambda>x s. if x \<notin> N then g x s else s" xs s] assms by simp_all

lemma updateActivities_snapshots [simp]:
  "kwinActivities (updateActivities w s) = new_Set (activities w)"
  "kwinDesktops (updateActivities w s) = kwinDesktops s"
  "kwinScreens (updateActivities w s) = kwinScreens s"
  by (simp_all add: updateActivities_def Let_def fold_if_snapshots)

lemma updateDesktops_snapshots [simp]:
  "kwinActivities (updateDesktops w s) = kwinActivities s"
  "kwinDesktops (updateDesktops w s) = new_Set (desktops_ws w)"
  "kwinScreens (updateDesktops w s) = kwinScreens s"
  by (simp_all add: updateDesktops_def Let_def fold_if_snapshots)

lemma updateScreens_snapshots [simp]:
  "kwinActivities (updateScreens w s) = kwinActivities s"
  "kwinDesktops (updateScreens w s) = kwinDesktops s"
  "kwinScreens (updateScreens w s) = new_Set (screens w)"
  by (simp_all add: updateScreens_def Let_def fold_if_snapshots)

lemma destroys_reconcile: "destroys (removedKeys dim w s) s (reconcile dim w s)"
proof (cases dim)
  case Activity
  have "removedKeys Activity w s
        = keysOf (set (kwinActivities s) - set (activities w)) (set (kwinDesktops s)) (set (kwinScreens s))"
    by (auto simp: removedKeys_def removedCoordinate_def keysOf_def)
  with Activity show ?thesis by (simp add: reconcile_def destroys_updateActivities)
next
  case VirtualDesktop
  have "removedKeys VirtualDesktop w s
        = keysOf (set (kwinActivities s)) (set (kwinDesktops s) - set (desktops_ws w)) (set (kwinScreens s))"
    by (auto simp: removedKeys_def removedCoordinate_def keysOf_def)
  with VirtualDesktop show ?thesis by (simp add: reconcile_def destroys_updateDesktops)
next
  case Screen
  have "removedKeys Screen w s
        = keysOf (set (kwinActivities s)) (set (kwinDesktops s)) (set (kwinScreens s) - set (screens w))"
    by (auto simp: removedKeys_def removedCoordinate_def keysOf_def)
  with Screen show ?thesis by (simp add: reconcile_def destroys_updateScreens)
qed

lemma destroys_subset: "destroys K s s' \<Longrightarrow> set (desktops s') \<subseteq> set (desktops s)"
  by (auto simp: destroys_def)

lemma destroys_same:
  assumes "destroys K s s1" and "destroys K s s2"
  shows "desktops s1 = desktops s2 \<and> constructed s1 = constructed s2
       \<and> (distinct (map fst (desktops s)) \<longrightarrow> mset (destroyed s1) = mset (destroyed s2))"
  using assms unfolding destroys_def by auto

lemma map_of_filter_keys:
  "map_of (filter (\<lambda>p. fst p \<notin> K) al) k = (if k \<in> K then None else map_of al k)"
  by (induction al) auto

subsection \<open>Reconciliation\<close>

text \<open>
  Claim C1, as amended. A reconciliation pass for a dimension destroys the entries at the
  keys of the coordinates \<open>(a, d, scr)\<close> drawn from the three cached snapshots whose
  component in that dimension is missing from the host's set
  (\<open>removedCoordinate\<close>). After the pass there is no entry at the key of any such
  coordinate, and every entry whose key is not the key of such a coordinate is still
  there, with the same instance, and \<open>destroy\<close> has not been invoked on it by the pass.
  The instances held by the entries are pairwise different objects.
\<close>

theorem reconcile_removes:
  assumes fresh: "distinct (map (inst \<circ> snd) (desktops s))"
  shows "(removedCoordinate dim w s a d scr
            \<longrightarrow> map_of (desktops (reconcile dim w s)) (getDesktopKey a d scr) = None)
       \<and> (map_of (desktops s) k = Some e \<and> k \<notin> removedKeys dim w s
            \<longrightarrow> map_of (desktops (reconcile dim w s)) k = Some e
              \<and> inst e \<notin> set (drop (length (destroyed s)) (destroyed (reconcile dim w s))))"
proof -
  let ?s' = "reconcile dim w s"
  let ?K = "removedKeys dim w s"
  from destroys_reconcile [of dim w s] obtain L where
    al: "desktops ?s' = filter (\<lambda>p. fst p \<notin> ?K) (desktops s)"
    and log: "destroyed ?s' = destroyed s @ L"
    and sub: "set L \<subseteq> (inst \<circ> snd) ` {p \<in> set (desktops s). fst p \<in> ?K}"
    unfolding destroys_def by blast
  have one: "map_of (desktops ?s') (getDesktopKey a d scr) = None"
    if "removedCoordinate dim w s a d scr"
  proof -
    from that have "getDesktopKey a d scr \<in> ?K" by (auto simp: removedKeys_def)
    then show ?thesis by (simp add: al map_of_filter_keys)
  qed
  have two: "map_of (desktops ?s') k = Some e \<and> inst e \<notin> set (drop (length (destroyed s)) (destroyed ?s'))"
    if look: "map_of (desktops s) k = Some e" and out: "k \<notin> ?K"
  proof
    show "map_of (desktops ?s') k = Some e" using look out by (simp add: al map_of_filter_keys)
    have mem: "(k, e) \<in> set (desktops s)" using look by (rule map_of_SomeD)
    have inj: "inj_on (inst \<circ> snd) (set (desktops s))" using fresh by (simp add: distinct_map)
    have "inst e \<notin> set L"
    proof
      assume "inst e \<in> set L"
      with sub obtain p where p: "p \<in> set (desktops s)" "fst p \<in> ?K" "(inst \<circ> snd) p = inst e"
        by auto
      then have "(inst \<circ> snd) p = (inst \<circ> snd) (k, e)" by simp
      from inj_onD [OF inj this p(1) mem] have "p = (k, e)" .
      with p out show False by simp
    qed
    then show "inst e \<notin> set (drop (length (destroyed s)) (destroyed ?s'))" by (simp add: log)
  qed
  from one two show ?thesis by blast
qed

theorem reconcile_removes_witness:
  "distinct (map (inst \<circ> snd) (desktops exTwo))
   \<and> removedCoordinate Activity (exHost\<lparr>activities := [''B'']\<rparr>) exTwo ''A'' exD1 exS1
   \<and> map_of (desktops (reconcile Activity (exHost\<lparr>activities := [''B'']\<rparr>) exTwo))
        (getDesktopKey ''A'' exD1 exS1) = None
   \<and> map_of (desktops exTwo) ''B|d1|HDMI-1'' = Some \<lparr>inst = 1, kwinDesktop_of = exD1, screen_of = exS1\<rparr>
   \<and> ''B|d1|HDMI-1'' \<notin> removedKeys Activity (exHost\<lparr>activities := [''B'']\<rparr>) exTwo
   \<and> map_of (desktops (reconcile Activity (exHost\<lparr>activities := [''B'']\<rparr>) exTwo)) ''B|d1|HDMI-1''
       = Some \<lparr>inst = 1, kwinDesktop_of = exD1, screen_of = exS1\<rparr>
   \<and> 1 \<notin> set (drop (length (destroyed exTwo))
                  (destroyed (reconcile Activity (exHost\<lparr>activities := [''B'']\<rparr>) exTwo)))"
proof -
  let ?w = "exHost\<lparr>activities := [''B'']\<rparr>"
  have h1: "distinct (map (inst \<circ> snd) (desktops exTwo))" by (simp add: exTwo_eq)
  have h2: "removedCoordinate Activity ?w exTwo ''A'' exD1 exS1"
    by (simp add: exTwo_eq removedCoordinate_def)
  have h3: "map_of (desktops exTwo) ''B|d1|HDMI-1'' = Some \<lparr>inst = 1, kwinDesktop_of = exD1, screen_of = exS1\<rparr>"
    by (simp add: exTwo_eq)
  have h4: "''B|d1|HDMI-1'' \<notin> removedKeys Activity ?w exTwo"
    by (auto simp: exTwo_eq removedKeys_def removedCoordinate_def getDesktopKey_def)
  from reconcile_removes [OF h1, of Activity ?w "''A''" exD1 exS1 "''B|d1|HDMI-1''"
      "\<lparr>inst = 1, kwinDesktop_of = exD1, screen_of = exS1\<rparr>"] h1 h2 h3 h4
  show ?thesis by simp
qed

text \<open>
  Claim C1 as stated (for every registry state) fails. The screen \<open>DP-1\<close> is plugged in
  after the manager was constructed and an entry for \<open>(A, d1, DP-1)\<close> is created before
  \<open>updateScreens\<close> has run. The host then removes the activity \<open>A\<close>.
  \<open>updateActivities\<close> walks the cached screens only, so the entry of the removed
  activity \<open>A\<close> is still there after the pass.
\<close>

theorem reconcile_leaves_unsnapshotted_entry:
  "''A'' \<in> set (kwinActivities (snd (getDesktop exFilter ''A'' exD1 exS2 (constructor exHost))))
   \<and> ''A'' \<notin> set (activities (exHost\<lparr>activities := [''B''], screens := [exS1, exS2]\<rparr>))
   \<and> map_of (desktops (updateActivities (exHost\<lparr>activities := [''B''], screens := [exS1, exS2]\<rparr>)
                (snd (getDesktop exFilter ''A'' exD1 exS2 (constructor exHost)))))
        (getDesktopKey ''A'' exD1 exS2)
      = Some \<lparr>inst = 0, kwinDesktop_of = exD1, screen_of = exS2\<rparr>"
  by (simp add: run_defs)

lemma fold_skip:
  "set xs \<subseteq> N \<Longrightarrow> fold (\<lambda>x s. if x \<notin> N then g x s else s) xs s = s"
  by (induction xs arbitrary: s) auto

text \<open>
  Claim C8. Running the same reconciliation pass a second time against the same host sets
  changes nothing: the manager after the second pass is the manager after the first, so
  the entries, the cached snapshots and the record of \<open>destroy\<close> invocations are the same.
\<close>

theorem reconcile_idempotent: "reconcile dim w (reconcile dim w s) = reconcile dim w s"
proof (cases dim)
  case Activity
  then show ?thesis by (simp add: reconcile_def updateActivities_def Let_def fold_skip)
next
  case VirtualDesktop
  then show ?thesis by (simp add: reconcile_def updateDesktops_def Let_def fold_skip)
next
  case Screen
  then show ?thesis by (simp add: reconcile_def updateScreens_def Let_def fold_skip)
qed

theorem reconcile_idempotent_witness:
  "reconcile Activity (exHost\<lparr>activities := [''B'']\<rparr>) (reconcile Activity (exHost\<lparr>activities := [''B'']\<rparr>) exTwo)
   = reconcile Activity (exHost\<lparr>activities := [''B'']\<rparr>) exTwo
   \<and> destroyed (reconcile Activity (exHost\<lparr>activities := [''B'']\<rparr>) exTwo) = [0]"
  using reconcile_idempotent [of Activity "exHost\<lparr>activities := [''B'']\<rparr>" exTwo]
  by (simp add: exTwo_eq reconcile_def run_defs)

lemma reconcile_snapshots:
  "kwinActivities (reconcile dim w s) = (if dim = Activity then new_Set (activities w) else kwinActivities s)"
  "kwinDesktops (reconcile dim w s) = (if dim = VirtualDesktop then new_Set (desktops_ws w) else kwinDesktops s)"
  "kwinScreens (reconcile dim w s) = (if dim = Screen then new_Set (screens w) else kwinScreens s)"
  by (cases dim; simp add: reconcile_def)+

lemma reconcileAll_snapshots:
  "kwinActivities (reconcileAll w dims s)
     = (if Activity \<in> set dims then new_Set (activities w) else kwinActivities s)"
  "kwinDesktops (reconcileAll w dims s)
     = (if VirtualDesktop \<in> set dims then new_Set (desktops_ws w) else kwinDesktops s)"
  "kwinScreens (reconcileAll w dims s)
     = (if Screen \<in> set dims then new_Set (screens w) else kwinScreens s)"
  unfolding reconcileAll_def
  by (induction dims arbitrary: s; auto simp: reconcile_snapshots)+

lemma staleKeys_complete:
  assumes "Activity \<in> set dims" "VirtualDesktop \<in> set dims" "Screen \<in> set dims"
  shows "staleKeys w (reconcileAll w dims s) = {}"
  using assms by (auto simp: staleKeys_def staleCoordinate_def reconcileAll_snapshots set_new_Set)

lemma snapshotsWithin_refl: "snapshotsWithin w s s"
  by (simp add: snapshotsWithin_def)

lemma snapshotsWithin_reconcile:
  "snapshotsWithin w s0 s \<Longrightarrow> snapshotsWithin w s0 (reconcile dim w s)"
  by (cases dim) (auto simp: snapshotsWithin_def reconcile_def set_new_Set)

lemma staleCoordinate_step:
  "staleCoordinate w s a d scr
   \<Longrightarrow> removedCoordinate dim w s a d scr \<or> staleCoordinate w (reconcile dim w s) a d scr"
  by (cases dim)
     (auto simp: removedCoordinate_def staleCoordinate_def reconcile_def set_new_Set)

lemma staleKeys_step:
  "staleKeys w s \<subseteq> removedKeys dim w s \<union> staleKeys w (reconcile dim w s)"
  unfolding removedKeys_def staleKeys_def
  using staleCoordinate_step [of w s _ _ _ dim] by blast

lemma removedCoordinate_stale:
  assumes ok: "staleEntriesInSnapshots w s0" and within: "snapshotsWithin w s0 s"
    and rem: "removedCoordinate dim w s a d scr"
    and entry: "getDesktopKey a d scr \<in> fst ` set (desktops s0)"
  shows "staleCoordinate w s0 a d scr"
proof -
  from rem within have dom: "a \<in> set (kwinActivities s0 @ activities w)"
      "d \<in> set (kwinDesktops s0 @ desktops_ws w)" "scr \<in> set (kwinScreens s0 @ screens w)"
    by (auto simp: removedCoordinate_def snapshotsWithin_def)
  from rem have gone: "\<not> (a \<in> set (activities w) \<and> d \<in> set (desktops_ws w) \<and> scr \<in> set (screens w))"
    by (cases dim) (auto simp: removedCoordinate_def)
  from ok dom entry gone
  have "a \<in> set (kwinActivities s0) \<and> d \<in> set (kwinDesktops s0) \<and> scr \<in> set (kwinScreens s0)"
    unfolding staleEntriesInSnapshots_def by blast
  with gone show ?thesis by (simp add: staleCoordinate_def)
qed

lemma removedKeys_stale:
  assumes "staleEntriesInSnapshots w s0" and "snapshotsWithin w s0 s"
  shows "removedKeys dim w s \<inter> fst ` set (desktops s0) \<subseteq> staleKeys w s0"
proof
  fix k assume k0: "k \<in> removedKeys dim w s \<inter> fst ` set (desktops s0)"
  then have "k \<in> removedKeys dim w s" by simp
  then obtain a d scr where k1: "k = getDesktopKey a d scr" "removedCoordinate dim w s a d scr"
    unfolding removedKeys_def by blast
  with k0 have k: "k = getDesktopKey a d scr" "removedCoordinate dim w s a d scr"
      "getDesktopKey a d scr \<in> fst ` set (desktops s0)"
    by simp_all
  from removedCoordinate_stale [OF assms k(2,3)] k(1) show "k \<in> staleKeys w s0"
    by (auto simp: staleKeys_def)
qed

lemma destroys_reconcileAll:
  assumes "staleEntriesInSnapshots w s0" and "snapshotsWithin w s0 s"
  shows "\<exists>R. destroys R s (reconcileAll w dims s)
            \<and> staleKeys w s \<subseteq> R \<union> staleKeys w (reconcileAll w dims s)
            \<and> R \<inter> fst ` set (desktops s0) \<subseteq> staleKeys w s0"
  using assms(2)
proof (induction dims arbitrary: s)
  case Nil
  have "destroys {} s s" by (rule destroys_empty)
  then show ?case by (auto simp: reconcileAll_def)
next
  case (Cons dim dims)
  let ?s1 = "reconcile dim w s"
  from Cons.IH [OF snapshotsWithin_reconcile [OF Cons.prems]] obtain R where
    R: "destroys R ?s1 (reconcileAll w dims ?s1)"
       "staleKeys w ?s1 \<subseteq> R \<union> staleKeys w (reconcileAll w dims ?s1)"
       "R \<inter> fst ` set (desktops s0) \<subseteq> staleKeys w s0"
    by blast
  have step: "reconcileAll w (dim # dims) s = reconcileAll w dims ?s1"
    by (simp add: reconcileAll_def)
  have "destroys (removedKeys dim w s \<union> R) s (reconcileAll w (dim # dims) s)"
    unfolding step by (rule destroys_trans [OF destroys_reconcile R(1)])
  moreover have "staleKeys w s
      \<subseteq> (removedKeys dim w s \<union> R) \<union> staleKeys w (reconcileAll w (dim # dims) s)"
    unfolding step using staleKeys_step [of w s dim] R(2) by blast
  moreover have "(removedKeys dim w s \<union> R) \<inter> fst ` set (desktops s0) \<subseteq> staleKeys w s0"
    using removedKeys_stale [OF assms(1) Cons.prems, of dim] R(3) by blast
  ultimately show ?case by blast
qed

lemma destroys_cong:
  assumes "destroys K s s'" and "\<And>p. p \<in> set (desktops s) \<Longrightarrow> fst p \<in> K \<longleftrightarrow> fst p \<in> K'"
  shows "destroys K' s s'"
proof -
  have f1: "filter (\<lambda>p. fst p \<notin> K) (desktops s) = filter (\<lambda>p. fst p \<notin> K') (desktops s)"
    by (rule filter_cong) (simp_all add: assms(2))
  have f2: "filter (\<lambda>p. fst p \<in> K) (desktops s) = filter (\<lambda>p. fst p \<in> K') (desktops s)"
    by (rule filter_cong) (simp_all add: assms(2))
  have f3: "{p \<in> set (desktops s). fst p \<in> K} = {p \<in> set (desktops s). fst p \<in> K'}"
    using assms(2) by blast
  from assms(1) show ?thesis unfolding destroys_def f1 f2 f3 .
qed

lemma destroys_reconcileAll_complete:
  assumes "staleEntriesInSnapshots w s" and "set dims = {Activity, VirtualDesktop, Screen}"
  shows "destroys (staleKeys w s) s (reconcileAll w dims s)"
proof -
  from destroys_reconcileAll [OF assms(1) snapshotsWithin_refl, of dims] obtain R where
    R: "destroys R s (reconcileAll w dims s)"
       "staleKeys w s \<subseteq> R \<union> staleKeys w (reconcileAll w dims s)"
       "R \<inter> fst ` set (desktops s) \<subseteq> staleKeys w s"
    by blast
  have "staleKeys w (reconcileAll w dims s) = {}"
    using assms(2) by (intro staleKeys_complete) simp_all
  with R(2) have sub: "staleKeys w s \<subseteq> R" by simp
  show ?thesis
  proof (rule destroys_cong [OF R(1)])
    fix p assume "p \<in> set (desktops s)"
    then have "fst p \<in> fst ` set (desktops s)" by simp
    with sub R(3) show "fst p \<in> R \<longleftrightarrow> fst p \<in> staleKeys w s" by blast
  qed
qed

text \<open>
  Two ways to meet the side condition: no dimension of the host has gained a value; or
  every key of an entry is the key of a coordinate of the snapshots, and the coordinates
  formed from the snapshots and the host's sets have pairwise different keys.
\<close>

lemma hostShrunk_staleEntriesInSnapshots:
  "hostShrunk w s \<Longrightarrow> staleEntriesInSnapshots w s"
  by (auto simp: hostShrunk_def staleEntriesInSnapshots_def)

lemma unambiguous_staleEntriesInSnapshots:
  assumes inside: "fst ` set (desktops s)
      \<subseteq> keysOf (set (kwinActivities s)) (set (kwinDesktops s)) (set (kwinScreens s))"
    and inj: "inj_on (\<lambda>(a, d, scr). getDesktopKey a d scr)
        (set (kwinActivities s @ activities w) \<times> set (kwinDesktops s @ desktops_ws w)
           \<times> set (kwinScreens s @ screens w))"
  shows "staleEntriesInSnapshots w s"
  unfolding staleEntriesInSnapshots_def
proof (intro ballI impI)
  fix a d scr
  assume dom: "a \<in> set (kwinActivities s @ activities w)" "d \<in> set (kwinDesktops s @ desktops_ws w)"
      "scr \<in> set (kwinScreens s @ screens w)"
    and h: "getDesktopKey a d scr \<in> fst ` set (desktops s)
        \<and> \<not> (a \<in> set (activities w) \<and> d \<in> set (desktops_ws w) \<and> scr \<in> set (screens w))"
  from h inside obtain a' d' scr' where r: "getDesktopKey a d scr = getDesktopKey a' d' scr'"
      "a' \<in> set (kwinActivities s)" "d' \<in> set (kwinDesktops s)" "scr' \<in> set (kwinScreens s)"
    by (auto simp: keysOf_def)
  have "(a, d, scr) = (a', d', scr')"
    by (rule inj_onD [OF inj]) (use r dom in auto)
  with r show "a \<in> set (kwinActivities s) \<and> d \<in> set (kwinDesktops s) \<and> scr \<in> set (kwinScreens s)"
    by simp
qed

text \<open>
  Claim C7, as amended. Take the coordinates formed from the values of the cached
  snapshots and of the host's sets, whatever the host has gained or lost. When every such
  coordinate that has lost a component on the host, and whose key is the key of an entry,
  lies inside the cached snapshots (\<open>staleEntriesInSnapshots\<close>: no entry sits at a
  coordinate that joins a value gone from the host with a value the snapshots do not hold
  yet), any two sequences of passes that run each of the three passes at least once, in
  particular the six orders of the three passes, end with the same entries and the same
  cached snapshots; and when the keys of the entries are distinct, \<open>destroy\<close> has been
  invoked on the same instances.
\<close>

theorem reconcile_order_irrelevant:
  assumes "staleEntriesInSnapshots w s"
    and "set ps = {Activity, VirtualDesktop, Screen}"
    and "set qs = {Activity, VirtualDesktop, Screen}"
  shows "desktops (reconcileAll w ps s) = desktops (reconcileAll w qs s)
       \<and> kwinActivities (reconcileAll w ps s) = kwinActivities (reconcileAll w qs s)
       \<and> kwinDesktops (reconcileAll w ps s) = kwinDesktops (reconcileAll w qs s)
       \<and> kwinScreens (reconcileAll w ps s) = kwinScreens (reconcileAll w qs s)
       \<and> constructed (reconcileAll w ps s) = constructed (reconcileAll w qs s)
       \<and> (distinct (map fst (desktops s))
            \<longrightarrow> mset (destroyed (reconcileAll w ps s)) = mset (destroyed (reconcileAll w qs s)))"
  using destroys_same [OF destroys_reconcileAll_complete [OF assms(1,2)]
                          destroys_reconcileAll_complete [OF assms(1,3)]]
  by (simp add: reconcileAll_snapshots assms(2,3))

lemma exFour_eq:
  "exFour = \<lparr>desktops = [(''A|d1|HDMI-1'', \<lparr>inst = 0, kwinDesktop_of = exD1, screen_of = exS1\<rparr>),
                         (''B|d1|HDMI-1'', \<lparr>inst = 1, kwinDesktop_of = exD1, screen_of = exS1\<rparr>),
                         (''A|d2|HDMI-1'', \<lparr>inst = 2, kwinDesktop_of = exD2, screen_of = exS1\<rparr>),
                         (''B|d2|HDMI-1'', \<lparr>inst = 3, kwinDesktop_of = exD2, screen_of = exS1\<rparr>)],
             kwinActivities = [''A'', ''B''], kwinDesktops = [exD1, exD2], kwinScreens = [exS1],
             constructed = 4, destroyed = []\<rparr>"
  by (simp add: exFour_def run_defs)

lemma exFour_stale: "staleEntriesInSnapshots exHostLater exFour"
  by (simp add: exFour_eq staleEntriesInSnapshots_def getDesktopKey_def)

theorem reconcile_order_irrelevant_witness:
  "reconcileAll exHostLater [Activity, VirtualDesktop, Screen] exFour
     = \<lparr>desktops = [(''A|d1|HDMI-1'', \<lparr>inst = 0, kwinDesktop_of = exD1, screen_of = exS1\<rparr>)],
        kwinActivities = [''A''], kwinDesktops = [exD1, exD3], kwinScreens = [exS1, exS2],
        constructed = 4, destroyed = [1, 3, 2]\<rparr>
   \<and> reconcileAll exHostLater [VirtualDesktop, Screen, Activity] exFour
     = \<lparr>desktops = [(''A|d1|HDMI-1'', \<lparr>inst = 0, kwinDesktop_of = exD1, screen_of = exS1\<rparr>)],
        kwinActivities = [''A''], kwinDesktops = [exD1, exD3], kwinScreens = [exS1, exS2],
        constructed = 4, destroyed = [2, 3, 1]\<rparr>
   \<and> desktops (reconcileAll exHostLater [Activity, VirtualDesktop, Screen] exFour)
     = desktops (reconcileAll exHostLater [VirtualDesktop, Screen, Activity] exFour)
   \<and> mset (destroyed (reconcileAll exHostLater [Activity, VirtualDesktop, Screen] exFour))
     = mset (destroyed (reconcileAll exHostLater [VirtualDesktop, Screen, Activity] exFour))"
proof -
  have h1: "staleEntriesInSnapshots exHostLater exFour" by (rule exFour_stale)
  have h2: "set [Activity, VirtualDesktop, Screen] = {Activity, VirtualDesktop, Screen}" by simp
  have h3: "set [VirtualDesktop, Screen, Activity] = {Activity, VirtualDesktop, Screen}" by auto
  have h4: "distinct (map fst (desktops exFour))" by (simp add: exFour_eq)
  have a: "reconcileAll exHostLater [Activity, VirtualDesktop, Screen] exFour
     = \<lparr>desktops = [(''A|d1|HDMI-1'', \<lparr>inst = 0, kwinDesktop_of = exD1, screen_of = exS1\<rparr>)],
        kwinActivities = [''A''], kwinDesktops = [exD1, exD3], kwinScreens = [exS1, exS2],
        constructed = 4, destroyed = [1, 3, 2]\<rparr>"
    by (simp add: exFour_eq reconcileAll_def reconcile_def run_defs)
  have b: "reconcileAll exHostLater [VirtualDesktop, Screen, Activity] exFour
     = \<lparr>desktops = [(''A|d1|HDMI-1'', \<lparr>inst = 0, kwinDesktop_of = exD1, screen_of = exS1\<rparr>)],
        kwinActivities = [''A''], kwinDesktops = [exD1, exD3], kwinScreens = [exS1, exS2],
        constructed = 4, destroyed = [2, 3, 1]\<rparr>"
    by (simp add: exFour_eq reconcileAll_def reconcile_def run_defs)
  from reconcile_order_irrelevant [OF h1 h2 h3] h4 a b show ?thesis by blast
qed

text \<open>
  Claim C7 as stated (for every registry state) fails. The desktop \<open>d2\<close> is added after
  the manager was constructed and an entry for \<open>(A, d2, HDMI-1)\<close> is created before
  \<open>updateDesktops\<close> has run; then the host removes the activity \<open>A\<close>. Running
  \<open>updateActivities\<close> first walks the old desktop snapshot and leaves the entry; running
  \<open>updateDesktops\<close> first puts \<open>d2\<close> into the snapshot, and \<open>updateActivities\<close> then
  destroys the entry.
\<close>

theorem reconcile_order_matters:
  "desktops (updateScreens (exHost\<lparr>activities := [''B''], desktops_ws := [exD1, exD2]\<rparr>)
       (updateDesktops (exHost\<lparr>activities := [''B''], desktops_ws := [exD1, exD2]\<rparr>)
         (updateActivities (exHost\<lparr>activities := [''B''], desktops_ws := [exD1, exD2]\<rparr>)
           (snd (getDesktop exFilter ''A'' exD2 exS1 (constructor exHost))))))
   \<noteq> desktops (updateScreens (exHost\<lparr>activities := [''B''], desktops_ws := [exD1, exD2]\<rparr>)
       (updateActivities (exHost\<lparr>activities := [''B''], desktops_ws := [exD1, exD2]\<rparr>)
         (updateDesktops (exHost\<lparr>activities := [''B''], desktops_ws := [exD1, exD2]\<rparr>)
           (snd (getDesktop exFilter ''A'' exD2 exS1 (constructor exHost))))))"
  by (simp add: run_defs)

text \<open>
  A remark on ambiguous keys. The side condition speaks of the coordinates that the key of
  an entry stands for, not of the coordinate the entry was created for: with a separator
  inside an activity or a desktop id, an entry created at a coordinate of the snapshots
  can share its key with a coordinate that a pass reaches only after another pass has
  refreshed a snapshot, and the order of the passes matters again.
\<close>

lemma reconcile_order_ambiguous_keys:
  "desktops (updateScreens
       \<lparr>activities = [''x''],
        desktops_ws = [\<lparr>ref_desktop = 1, id_desktop = ''y|z''\<rparr>, \<lparr>ref_desktop = 2, id_desktop = ''z''\<rparr>],
        screens = [exS1], currentActivity = ''x'',
        currentDesktop = \<lparr>ref_desktop = 1, id_desktop = ''y|z''\<rparr>, activeScreen = exS1\<rparr>
     (updateDesktops
       \<lparr>activities = [''x''],
        desktops_ws = [\<lparr>ref_desktop = 1, id_desktop = ''y|z''\<rparr>, \<lparr>ref_desktop = 2, id_desktop = ''z''\<rparr>],
        screens = [exS1], currentActivity = ''x'',
        currentDesktop = \<lparr>ref_desktop = 1, id_desktop = ''y|z''\<rparr>, activeScreen = exS1\<rparr>
     (updateActivities
       \<lparr>activities = [''x''],
        desktops_ws = [\<lparr>ref_desktop = 1, id_desktop = ''y|z''\<rparr>, \<lparr>ref_desktop = 2, id_desktop = ''z''\<rparr>],
        screens = [exS1], currentActivity = ''x'',
        currentDesktop = \<lparr>ref_desktop = 1, id_desktop = ''y|z''\<rparr>, activeScreen = exS1\<rparr>
     (snd (getDesktop exFilter ''x'' \<lparr>ref_desktop = 1, id_desktop = ''y|z''\<rparr> exS1
        (constructor
          \<lparr>activities = [''x'', ''x|y''],
           desktops_ws = [\<lparr>ref_desktop = 1, id_desktop = ''y|z''\<rparr>],
           screens = [exS1], currentActivity = ''x'',
           currentDesktop = \<lparr>ref_desktop = 1, id_desktop = ''y|z''\<rparr>, activeScreen = exS1\<rparr>))))))
   = [(''x|y|z|HDMI-1'',
       \<lparr>inst = 0, kwinDesktop_of = \<lparr>ref_desktop = 1, id_desktop = ''y|z''\<rparr>, screen_of = exS1\<rparr>)]
   \<and> desktops (updateScreens
       \<lparr>activities = [''x''],
        desktops_ws = [\<lparr>ref_desktop = 1, id_desktop = ''y|z''\<rparr>, \<lparr>ref_desktop = 2, id_desktop = ''z''\<rparr>],
        screens = [exS1], currentActivity = ''x'',
        currentDesktop = \<lparr>ref_desktop = 1, id_desktop = ''y|z''\<rparr>, activeScreen = exS1\<rparr>
     (updateActivities
       \<lparr>activities = [''x''],
        desktops_ws = [\<lparr>ref_desktop = 1, id_desktop = ''y|z''\<rparr>, \<lparr>ref_desktop = 2, id_desktop = ''z''\<rparr>],
        screens = [exS1], currentActivity = ''x'',
        currentDesktop = \<lparr>ref_desktop = 1, id_desktop = ''y|z''\<rparr>, activeScreen = exS1\<rparr>
     (updateDesktops
       \<lparr>activities = [''x''],
        desktops_ws = [\<lparr>ref_desktop = 1, id_desktop = ''y|z''\<rparr>, \<lparr>ref_desktop = 2, id_desktop = ''z''\<rparr>],
        screens = [exS1], currentActivity = ''x'',
        currentDesktop = \<lparr>ref_desktop = 1, id_desktop = ''y|z''\<rparr>, activeScreen = exS1\<rparr>
     (snd (getDesktop exFilter ''x'' \<lparr>ref_desktop = 1, id_desktop = ''y|z''\<rparr> exS1
        (constructor
          \<lparr>activities = [''x'', ''x|y''],
           desktops_ws = [\<lparr>ref_desktop = 1, id_desktop = ''y|z''\<rparr>],
           screens = [exS1], currentActivity = ''x'',
           currentDesktop = \<lparr>ref_desktop = 1, id_desktop = ''y|z''\<rparr>, activeScreen = exS1\<rparr>))))))
   = []"
  by (simp add: run_defs)

subsection \<open>Teardown\<close>

lemma destroy_fold:
  "fold (\<lambda>desktop this. this\<lparr>destroyed := destroyed this @ [inst desktop]\<rparr>) ds s
   = s\<lparr>destroyed := destroyed s @ map inst ds\<rparr>"
  by (induction ds arbitrary: s) simp_all

lemma destroy_eq: "destroy s = s\<lparr>destroyed := destroyed s @ map (inst \<circ> snd) (desktops s)\<rparr>"
  by (simp add: destroy_def destroy_fold)

lemma count_list_distinct: "distinct xs \<Longrightarrow> x \<in> set xs \<Longrightarrow> count_list xs x = 1"
  by (induction xs) auto

text \<open>
  Within one call of \<open>destroy()\<close> every instance of the map receives exactly one
  \<open>destroy\<close> invocation, when the map holds pairwise different instances.
\<close>

lemma destroy_each_once:
  assumes "distinct (map (inst \<circ> snd) (desktops s))" and "p \<in> set (desktops s)"
  shows "count_list (drop (length (destroyed s)) (destroyed (destroy s))) (inst (snd p)) = 1"
proof -
  from assms(2) have "(inst \<circ> snd) p \<in> set (map (inst \<circ> snd) (desktops s))" by simp
  from count_list_distinct [OF assms(1) this] show ?thesis by (simp add: destroy_eq)
qed

text \<open>
  Claim C2. After the teardown every \<open>Desktop\<close> of the map is to have received one
  \<open>destroy\<close> invocation and the registry is to report no entries. The code does the
  first half only. \<open>destroy()\<close> invokes \<open>destroy\<close> on each instance of the map, in order,
  but, unlike \<open>destroyDesktop\<close>, which deletes the key right after destroying the
  instance, it removes nothing. After the teardown of the two-entry registry
  \<open>getAllDesktops\<close> still yields both instances, a second \<open>destroy()\<close> invokes
  \<open>destroy\<close> on both of them again, and \<open>getDesktop\<close> hands out the destroyed instance.
\<close>

theorem destroy_keeps_entries:
  "map_of (desktops exTwo) ''A|d1|HDMI-1'' = Some \<lparr>inst = 0, kwinDesktop_of = exD1, screen_of = exS1\<rparr>
   \<and> destroyed (destroy exTwo) = [0, 1]
   \<and> fst (getAllDesktops (destroy exTwo))
       = [\<lparr>inst = 0, kwinDesktop_of = exD1, screen_of = exS1\<rparr>,
          \<lparr>inst = 1, kwinDesktop_of = exD1, screen_of = exS1\<rparr>]
   \<and> destroyed (destroy (destroy exTwo)) = [0, 1, 0, 1]
   \<and> fst (getDesktop exFilter ''A'' exD1 exS1 (destroy exTwo))
       = Some \<lparr>inst = 0, kwinDesktop_of = exD1, screen_of = exS1\<rparr>
   \<and> destroyed (destroyDesktop ''A'' exD1 exS1 exTwo) = [0]
   \<and> fst (getAllDesktops (destroyDesktop ''A'' exD1 exS1 exTwo))
       = [\<lparr>inst = 1, kwinDesktop_of = exD1, screen_of = exS1\<rparr>]"
  by (simp add: exTwo_eq getAllDesktops_eq destroy_eq getDesktop_def destroyDesktop_def
        getDesktopKey_def)

subsection \<open>Iteration\<close>

lemma lookupYield_eq: "lookupYield a d scr (out, s) = (out @ entryAt s a d scr, s)"
  by (simp add: lookupYield_def entryAt_def split: option.split)

lemma fold_lookupYield:
  "fold (\<lambda>screen acc. lookupYield a d screen acc) scrs (out, s)
   = (out @ concat (map (\<lambda>scr. entryAt s a d scr) scrs), s)"
  by (induction scrs arbitrary: out) (simp_all add: lookupYield_eq)

lemma fold_desktops_lookupYield:
  "fold (\<lambda>matchedDesktop acc.
           fold (\<lambda>screen acc. lookupYield a matchedDesktop screen acc) (kwinScreens (snd acc)) acc)
        ds (out, s)
   = (out @ concat (map (\<lambda>d. concat (map (\<lambda>scr. entryAt s a d scr) (kwinScreens s))) ds), s)"
  by (induction ds arbitrary: out) (simp_all add: fold_lookupYield)

lemma getDesktops_activities_snd:
  "snd (getDesktops_activities as it (out, s)) = s"
proof (induction as arbitrary: it out)
  case Nil
  show ?case by simp
next
  case (Cons a as)
  show ?case by (cases it) (simp_all add: fold_desktops_lookupYield Cons.IH)
qed

lemma entryAt_subset: "set (entryAt s a d scr) \<subseteq> snd ` set (desktops s)"
proof (cases "map_of (desktops s) (getDesktopKey a d scr)")
  case None
  then show ?thesis by (simp add: entryAt_def)
next
  case (Some e)
  then have "(getDesktopKey a d scr, e) \<in> set (desktops s)" by (rule map_of_SomeD)
  then have "e \<in> snd ` set (desktops s)" by force
  with Some show ?thesis by (simp add: entryAt_def)
qed

lemma entryAt_mem: "e \<in> set (entryAt s a d scr) \<Longrightarrow> e \<in> snd ` set (desktops s)"
  using entryAt_subset [of s a d scr] by blast

lemma yielded_subset:
  "set (concat (map (\<lambda>d. concat (map (\<lambda>scr. entryAt s a d scr) scrs)) ds)) \<subseteq> snd ` set (desktops s)"
  by (auto dest: entryAt_mem)

lemma getDesktops_activities_fst:
  "set (fst (getDesktops_activities as it (out, s))) \<subseteq> set out \<union> snd ` set (desktops s)"
proof (induction as arbitrary: it out)
  case Nil
  show ?case by simp
next
  case (Cons a as)
  let ?ys = "\<lambda>ds. concat (map (\<lambda>d. concat (map (\<lambda>scr. entryAt s a d scr) (kwinScreens s))) ds)"
  show ?case
  proof (cases it)
    case (Array ds)
    have "set (fst (getDesktops_activities as (Array ds) (out @ ?ys ds, s)))
          \<subseteq> set (out @ ?ys ds) \<union> snd ` set (desktops s)"
      by (rule Cons.IH)
    also have "\<dots> \<subseteq> set out \<union> snd ` set (desktops s)"
      using yielded_subset [of s a "kwinScreens s" ds] by auto
    finally show ?thesis by (simp add: Array fold_desktops_lookupYield)
  next
    case (Iterator ds)
    have "set (fst (getDesktops_activities as (Iterator []) (out @ ?ys ds, s)))
          \<subseteq> set (out @ ?ys ds) \<union> snd ` set (desktops s)"
      by (rule Cons.IH)
    also have "\<dots> \<subseteq> set out \<union> snd ` set (desktops s)"
      using yielded_subset [of s a "kwinScreens s" ds] by auto
    finally show ?thesis by (simp add: Iterator fold_desktops_lookupYield)
  qed
qed

text \<open>
  Claim C9. Run to completion, \<open>getDesktopsOnCurrentDesktopAndActivity\<close> and
  \<open>getDesktops\<close> (for any arguments) leave the manager exactly as it was: no entry is
  inserted or removed, nothing is constructed or destroyed. They yield entries of the map
  only; a coordinate without an entry is skipped.
\<close>

theorem iteration_creates_nothing:
  "snd (getDesktopsOnCurrentDesktopAndActivity w s) = s
   \<and> set (fst (getDesktopsOnCurrentDesktopAndActivity w s)) \<subseteq> snd ` set (desktops s)
   \<and> snd (getDesktops as ds s) = s
   \<and> set (fst (getDesktops as ds s)) \<subseteq> snd ` set (desktops s)"
proof -
  have "set (concat (map (\<lambda>scr. entryAt s (currentActivity w) (currentDesktop w) scr) (kwinScreens s)))
        \<subseteq> snd ` set (desktops s)"
    by (auto dest: entryAt_mem)
  then have one: "snd (getDesktopsOnCurrentDesktopAndActivity w s) = s
      \<and> set (fst (getDesktopsOnCurrentDesktopAndActivity w s)) \<subseteq> snd ` set (desktops s)"
    by (simp add: getDesktopsOnCurrentDesktopAndActivity_def Let_def fold_lookupYield)
  have two: "snd (getDesktops as ds s) = s"
    by (simp add: getDesktops_def Let_def getDesktops_activities_snd)
  have three: "set (fst (getDesktops as ds s)) \<subseteq> snd ` set (desktops s)"
    using getDesktops_activities_fst [of _ _ "[]" s] by (simp add: getDesktops_def Let_def)
  from one two three show ?thesis by simp
qed

theorem iteration_creates_nothing_witness:
  "snd (getDesktopsOnCurrentDesktopAndActivity (exHost\<lparr>activeScreen := exS2\<rparr>) exTwo) = exTwo
   \<and> fst (getDesktopsOnCurrentDesktopAndActivity (exHost\<lparr>activeScreen := exS2\<rparr>) exTwo)
     = [\<lparr>inst = 0, kwinDesktop_of = exD1, screen_of = exS1\<rparr>]
   \<and> snd (getDesktops [''A'', ''C''] [exD1, exD2] exTwo) = exTwo
   \<and> fst (getDesktops [''A'', ''C''] [exD1, exD2] exTwo)
     = [\<lparr>inst = 0, kwinDesktop_of = exD1, screen_of = exS1\<rparr>]"
proof -
  have a: "fst (getDesktopsOnCurrentDesktopAndActivity (exHost\<lparr>activeScreen := exS2\<rparr>) exTwo)
     = [\<lparr>inst = 0, kwinDesktop_of = exD1, screen_of = exS1\<rparr>]"
    by (simp add: exTwo_eq getDesktopsOnCurrentDesktopAndActivity_def lookupYield_def
        getDesktopKey_def Let_def)
  have b: "fst (getDesktops [''A'', ''C''] [exD1, exD2] exTwo)
     = [\<lparr>inst = 0, kwinDesktop_of = exD1, screen_of = exS1\<rparr>]"
    by (simp add: exTwo_eq getDesktops_def lookupYield_def getDesktopKey_def Let_def)
  from iteration_creates_nothing [of "exHost\<lparr>activeScreen := exS2\<rparr>" exTwo "[''A'', ''C'']" "[exD1, exD2]"]
  have "snd (getDesktopsOnCurrentDesktopAndActivity (exHost\<lparr>activeScreen := exS2\<rparr>) exTwo) = exTwo"
    and "snd (getDesktops [''A'', ''C''] [exD1, exD2] exTwo) = exTwo"
    by blast+
  with a b show ?thesis by blast
qed

lemma getDesktops_activities_Array:
  "getDesktops_activities as (Array ds) (out, s)
   = (out @ concat (map (\<lambda>a. yieldedFor s a ds) as), s)"
  by (induction as arbitrary: out) (simp_all add: fold_desktops_lookupYield yieldedFor_def)

lemma getDesktops_activities_exhausted:
  "getDesktops_activities as (Iterator []) (out, s) = (out, s)"
  by (induction as) simp_all

lemma getDesktops_activities_Iterator:
  "getDesktops_activities (a # as) (Iterator ds) (out, s) = (out @ yieldedFor s a ds, s)"
  by (simp add: fold_desktops_lookupYield yieldedFor_def getDesktops_activities_exhausted)

lemma count_list_concat_map:
  "count_list (concat (map f xs)) e = sum_list (map (\<lambda>x. count_list (f x) e) xs)"
  by (induction xs) simp_all

lemma count_times_le_sum_list:
  fixes g :: "'a \<Rightarrow> nat"
  assumes "c \<le> g a"
  shows "count_list xs a * c \<le> sum_list (map g xs)"
  using assms by (induction xs) auto

lemma count_entryAt_screens:
  assumes "scr \<in> set scrs" and "map_of (desktops s) (getDesktopKey a d scr) = Some e"
  shows "1 \<le> count_list (concat (map (\<lambda>scr. entryAt s a d scr) scrs)) e"
proof -
  from assms(2) have "e \<in> set (entryAt s a d scr)" by (simp add: entryAt_def)
  with assms(1) have "e \<in> set (concat (map (\<lambda>scr. entryAt s a d scr) scrs))" by auto
  then have "count_list (concat (map (\<lambda>scr. entryAt s a d scr) scrs)) e \<noteq> 0"
    by (simp add: count_list_0_iff)
  then show ?thesis by simp
qed

lemma count_yieldedFor:
  assumes "scr \<in> set (kwinScreens s)" and "map_of (desktops s) (getDesktopKey a d scr) = Some e"
  shows "count_list ds d \<le> count_list (yieldedFor s a ds) e"
  using count_entryAt_screens [OF assms]
    count_times_le_sum_list [where c = 1 and a = d and xs = ds
      and g = "\<lambda>d. count_list (concat (map (\<lambda>scr. entryAt s a d scr) (kwinScreens s))) e"]
  by (simp add: yieldedFor_def count_list_concat_map)

text \<open>
  What \<open>getDesktops\<close> yields, in closed form. An empty activities argument stands for
  the cached activities. A non-empty desktops argument is walked once for every activity;
  an empty one stands for the cached desktops, which are walked for the first activity
  only.
\<close>

lemma getDesktops_eq:
  "fst (getDesktops as ds s) =
     (let acts = (if as = [] then kwinActivities s else as)
      in if ds \<noteq> [] then concat (map (\<lambda>a. yieldedFor s a ds) acts)
         else (case acts of [] \<Rightarrow> [] | a # rest \<Rightarrow> yieldedFor s a (kwinDesktops s)))"
proof (cases "ds = []")
  case False
  then show ?thesis by (simp add: getDesktops_def getDesktops_activities_Array)
next
  case True
  show ?thesis
  proof (cases "if as = [] then kwinActivities s else as")
    case Nil
    with True show ?thesis by (auto simp: getDesktops_def split: if_splits)
  next
    case (Cons a rest)
    with True show ?thesis
      by (auto simp: getDesktops_def getDesktops_activities_Iterator
            simp del: getDesktops_activities.simps split: if_splits)
  qed
qed

text \<open>
  With a non-empty desktops argument, an entry of the map at the coordinate
  \<open>(a, d, scr)\<close>, with \<open>scr\<close> a cached screen, is yielded at least once for every pair
  of an occurrence of \<open>a\<close> among the activities walked and an occurrence of \<open>d\<close> in the
  desktops argument.
\<close>

lemma getDesktops_repeats:
  assumes "scr \<in> set (kwinScreens s)"
    and "map_of (desktops s) (getDesktopKey a d scr) = Some e"
  shows "count_list (if as = [] then kwinActivities s else as) a * count_list ds d
           \<le> count_list (fst (getDesktops as ds s)) e"
proof (cases "ds = []")
  case True
  then show ?thesis by simp
next
  case False
  let ?acts = "if as = [] then kwinActivities s else as"
  from False have "fst (getDesktops as ds s) = concat (map (\<lambda>a. yieldedFor s a ds) ?acts)"
    by (simp add: getDesktops_eq)
  moreover have "count_list ?acts a * count_list ds d
        \<le> sum_list (map (\<lambda>a. count_list (yieldedFor s a ds) e) ?acts)"
    by (rule count_times_le_sum_list) (rule count_yieldedFor [OF assms])
  ultimately show ?thesis by (simp add: count_list_concat_map)
qed

text \<open>
  Claim C10. \<open>getDesktops\<close> does not deduplicate its arguments, so an entry is to be
  yielded once for every combination of an occurrence of its activity and an occurrence
  of its desktop. With both arrays given it is: \<open>(['A', 'A'], [d1])\<close> yields instance 0
  twice, and with the activities empty \<open>([], [d1, d1])\<close> yields every entry twice. With
  the desktops argument empty ("empty array means all") the desktops come from the one
  iterator \<open>this.kwinDesktops.keys()\<close>, which the loop of the first activity exhausts:
  \<open>(['A', 'A'], [])\<close> yields instance 0 once, not twice, and \<open>(['A', 'B'], [])\<close> misses
  the entry of \<open>B\<close> that \<open>(['A', 'B'], [d1])\<close> yields.
\<close>

theorem getDesktops_exhausted_iterator:
  "kwinDesktops exTwo = [exD1]
   \<and> fst (getDesktops [''A'', ''A''] [exD1] exTwo)
       = [\<lparr>inst = 0, kwinDesktop_of = exD1, screen_of = exS1\<rparr>,
          \<lparr>inst = 0, kwinDesktop_of = exD1, screen_of = exS1\<rparr>]
   \<and> fst (getDesktops [''A'', ''A''] [] exTwo)
       = [\<lparr>inst = 0, kwinDesktop_of = exD1, screen_of = exS1\<rparr>]
   \<and> fst (getDesktops [''A'', ''B''] [exD1] exTwo)
       = [\<lparr>inst = 0, kwinDesktop_of = exD1, screen_of = exS1\<rparr>,
          \<lparr>inst = 1, kwinDesktop_of = exD1, screen_of = exS1\<rparr>]
   \<and> fst (getDesktops [''A'', ''B''] [] exTwo)
       = [\<lparr>inst = 0, kwinDesktop_of = exD1, screen_of = exS1\<rparr>]
   \<and> fst (getDesktops [] [exD1, exD1] exTwo)
       = [\<lparr>inst = 0, kwinDesktop_of = exD1, screen_of = exS1\<rparr>,
          \<lparr>inst = 0, kwinDesktop_of = exD1, screen_of = exS1\<rparr>,
          \<lparr>inst = 1, kwinDesktop_of = exD1, screen_of = exS1\<rparr>,
          \<lparr>inst = 1, kwinDesktop_of = exD1, screen_of = exS1\<rparr>]"
  by (simp add: exTwo_eq getDesktops_def lookupYield_def getDesktopKey_def Let_def)

text \<open>
  A remark on the "empty array means all" case of \<open>getDesktops\<close>: the desktops are then
  read from the iterator \<open>this.kwinDesktops.keys()\<close>, which the loop of the first
  activity consumes. For every further activity the inner loop finds the iterator
  exhausted, so only the first matched activity contributes.
\<close>

lemma getDesktops_all_desktops_first_activity:
  "fst (getDesktops (a # as) [] s) = yieldedFor s a (kwinDesktops s)"
  by (simp add: getDesktops_def getDesktops_activities_exhausted fold_desktops_lookupYield yieldedFor_def)

subsection \<open>Where entries come from\<close>

lemma getDesktop_entries:
  assumes "(k, e) \<in> set (desktops (snd (getDesktop f a d scr s)))"
  shows "(k, e) \<in> set (desktops s) \<or> createdBy f (w, s) a d scr k e"
proof (cases "shouldWorkOnDesktop f d")
  case False
  with assms show ?thesis by (simp add: getDesktop_rejected)
next
  case True
  show ?thesis
  proof (cases "map_of (desktops s) (getDesktopKey a d scr)")
    case None
    with assms True show ?thesis
      by (auto simp: getDesktop_created [OF True None] createdBy_def)
  next
    case (Some e')
    with assms show ?thesis by (simp add: getDesktop_cached [OF True Some])
  qed
qed

lemma exec_entries:
  assumes "(k, e) \<in> set (desktops (snd (exec f ev st)))"
  shows "(k, e) \<in> set (desktops (snd st))
       \<or> (\<exists>a d scr. ev = GetDesktop a d scr \<and> createdBy f st a d scr k e)"
proof -
  obtain w s where st: "st = (w, s)" by (cases st)
  show ?thesis
  proof (cases ev)
    case (GetDesktop a d scr)
    with assms st getDesktop_entries [of k e f a d scr s w] show ?thesis by simp
  next
    case UpdateActivities
    with assms st destroys_subset [OF destroys_updateActivities [of s w]] show ?thesis by auto
  next
    case UpdateDesktops
    with assms st destroys_subset [OF destroys_updateDesktops [of s w]] show ?thesis by auto
  next
    case UpdateScreens
    with assms st destroys_subset [OF destroys_updateScreens [of s w]] show ?thesis by auto
  next
    case Destroy
    with assms st show ?thesis by (simp add: destroy_eq)
  next
    case (HostChange w')
    with assms st show ?thesis by simp
  qed
qed

lemma run_entries:
  assumes "(k, e) \<in> set (desktops (snd (run f evs st)))" and "callsValid f evs st"
  shows "(k, e) \<in> set (desktops (snd st))
       \<or> (\<exists>pre a d scr post. evs = pre @ GetDesktop a d scr # post
             \<and> createdBy f (run f pre st) a d scr k e
             \<and> hostValid (fst (run f pre st)) a d scr)"
  using assms
proof (induction evs arbitrary: st)
  case Nil
  then show ?case by (simp add: run_def)
next
  case (Cons ev evs)
  let ?st' = "exec f ev st"
  have step: "run f (ev # evs) st = run f evs ?st'" by (simp add: run_def)
  from Cons.prems have valid: "callValid ev (fst st)" "callsValid f evs ?st'" by simp_all
  from Cons.IH [OF Cons.prems(1) [unfolded step] valid(2)]
  consider (old) "(k, e) \<in> set (desktops (snd ?st'))"
    | (new) pre a d scr post where "evs = pre @ GetDesktop a d scr # post"
        "createdBy f (run f pre ?st') a d scr k e" "hostValid (fst (run f pre ?st')) a d scr"
    by blast
  then show ?case
  proof cases
    case old
    from exec_entries [OF old]
    consider "(k, e) \<in> set (desktops (snd st))"
      | a d scr where "ev = GetDesktop a d scr" "createdBy f st a d scr k e"
      by blast
    then show ?thesis
    proof cases
      case 1
      then show ?thesis by simp
    next
      case 2
      with valid(1) have "ev # evs = [] @ GetDesktop a d scr # evs
          \<and> createdBy f (run f [] st) a d scr k e \<and> hostValid (fst (run f [] st)) a d scr"
        by (simp add: run_def)
      then show ?thesis by blast
    qed
  next
    case new
    then have "ev # evs = (ev # pre) @ GetDesktop a d scr # post
        \<and> createdBy f (run f (ev # pre) st) a d scr k e
        \<and> hostValid (fst (run f (ev # pre) st)) a d scr"
      by (simp add: run_def)
    then show ?thesis by blast
  qed
qed

text \<open>
  Claim C5, as amended. \<open>getDesktop\<close> checks the filter only, never the membership of its
  arguments in any set. What holds is this: in every state reached from the constructor
  by calls in which each \<open>getDesktop\<close> is given an activity, a desktop and a screen from
  the host's sets at the time of the call, every entry of the map was created by one of
  these calls, at the key of its triple, bound to its desktop and screen, for a desktop
  that passes the filter, and the three components were in the host's sets when it was
  created.
\<close>

theorem entries_created_from_host_sets:
  assumes "callsValid f evs (initial w0)"
    and "(k, e) \<in> set (desktops (snd (run f evs (initial w0))))"
  shows "\<exists>pre a d scr post. evs = pre @ GetDesktop a d scr # post
           \<and> createdBy f (run f pre (initial w0)) a d scr k e
           \<and> hostValid (fst (run f pre (initial w0))) a d scr"
  using run_entries [OF assms(2,1)] by (simp add: initial_def constructor_def)

theorem entries_created_from_host_sets_witness:
  "callsValid exFilter
     [HostChange (exHost\<lparr>desktops_ws := [exD1, exD2]\<rparr>), GetDesktop ''A'' exD2 exS1, UpdateActivities]
     (initial exHost)
   \<and> (''A|d2|HDMI-1'', \<lparr>inst = 0, kwinDesktop_of = exD2, screen_of = exS1\<rparr>)
       \<in> set (desktops (snd (run exFilter
            [HostChange (exHost\<lparr>desktops_ws := [exD1, exD2]\<rparr>), GetDesktop ''A'' exD2 exS1, UpdateActivities]
            (initial exHost))))
   \<and> (\<exists>pre a d scr post.
         [HostChange (exHost\<lparr>desktops_ws := [exD1, exD2]\<rparr>), GetDesktop ''A'' exD2 exS1, UpdateActivities]
           = pre @ GetDesktop a d scr # post
         \<and> createdBy exFilter (run exFilter pre (initial exHost)) a d scr ''A|d2|HDMI-1''
             \<lparr>inst = 0, kwinDesktop_of = exD2, screen_of = exS1\<rparr>
         \<and> hostValid (fst (run exFilter pre (initial exHost))) a d scr)
   \<and> hostValid (fst (run exFilter [HostChange (exHost\<lparr>desktops_ws := [exD1, exD2]\<rparr>)] (initial exHost)))
        ''A'' exD2 exS1"
proof -
  let ?evs = "[HostChange (exHost\<lparr>desktops_ws := [exD1, exD2]\<rparr>), GetDesktop ''A'' exD2 exS1, UpdateActivities]"
  let ?e = "\<lparr>inst = 0, kwinDesktop_of = exD2, screen_of = exS1\<rparr>"
  have h1: "callsValid exFilter ?evs (initial exHost)"
    by (simp add: initial_def hostValid_def)
  have h2: "(''A|d2|HDMI-1'', ?e) \<in> set (desktops (snd (run exFilter ?evs (initial exHost))))"
    by (simp add: run_def initial_def run_defs)
  have h3: "hostValid (fst (run exFilter [HostChange (exHost\<lparr>desktops_ws := [exD1, exD2]\<rparr>)] (initial exHost)))
        ''A'' exD2 exS1"
    by (simp add: run_def initial_def hostValid_def)
  from entries_created_from_host_sets [OF h1 h2] h1 h2 h3 show ?thesis by blast
qed

text \<open>
  Claim C5 as stated fails: \<open>getDesktop\<close> creates an entry for any triple whose desktop
  passes the filter. Right after construction, a call with an activity, a desktop and a
  screen that are in none of the host's sets and in none of the cached snapshots inserts
  an entry.
\<close>

theorem getDesktop_admits_unknown_coordinate:
  "''Z'' \<notin> set (activities exHost) \<and> ''Z'' \<notin> set (kwinActivities (constructor exHost))
   \<and> \<lparr>ref_desktop = 7, id_desktop = ''d7''\<rparr> \<notin> set (desktops_ws exHost)
   \<and> \<lparr>ref_desktop = 7, id_desktop = ''d7''\<rparr> \<notin> set (kwinDesktops (constructor exHost))
   \<and> exS2 \<notin> set (screens exHost) \<and> exS2 \<notin> set (kwinScreens (constructor exHost))
   \<and> getDesktop exFilter ''Z'' \<lparr>ref_desktop = 7, id_desktop = ''d7''\<rparr> exS2 (constructor exHost)
     = (Some \<lparr>inst = 0, kwinDesktop_of = \<lparr>ref_desktop = 7, id_desktop = ''d7''\<rparr>, screen_of = exS2\<rparr>,
        (constructor exHost)
          \<lparr>constructed := 1,
           desktops := [(''Z|d7|DP-1'',
             \<lparr>inst = 0, kwinDesktop_of = \<lparr>ref_desktop = 7, id_desktop = ''d7''\<rparr>, screen_of = exS2\<rparr>)]\<rparr>)"
  by (simp add: run_defs)

subsection \<open>Reachable states\<close>

lemma wellFormed_constructor: "wellFormed (constructor w) \<and> noneDestroyed (constructor w)"
  by (simp add: wellFormed_def noneDestroyed_def constructor_def)

lemma wellFormed_destroys:
  assumes d: "destroys K s s'" and wf: "wellFormed s"
  shows "wellFormed s'" and "noneDestroyed s \<Longrightarrow> noneDestroyed s'"
proof -
  from d obtain L where
    al: "desktops s' = filter (\<lambda>p. fst p \<notin> K) (desktops s)"
    and c: "constructed s' = constructed s"
    and log: "destroyed s' = destroyed s @ L"
    and sub: "set L \<subseteq> (inst \<circ> snd) ` {p \<in> set (desktops s). fst p \<in> K}"
    unfolding destroys_def by blast
  from wf have dk: "distinct (map fst (desktops s))"
    and di: "distinct (map (inst \<circ> snd) (desktops s))"
    and bound: "\<And>p. p \<in> set (desktops s) \<Longrightarrow> inst (snd p) < constructed s"
    and lbound: "\<And>i. i \<in> set (destroyed s) \<Longrightarrow> i < constructed s"
    by (auto simp: wellFormed_def)
  have "\<And>i. i \<in> set L \<Longrightarrow> i < constructed s" using sub bound by auto
  then show "wellFormed s'"
    using dk di bound lbound by (auto simp: wellFormed_def al c log distinct_map_filter)
  have inj: "inj_on (inst \<circ> snd) (set (desktops s))" using di by (simp add: distinct_map)
  show "noneDestroyed s'" if nd: "noneDestroyed s"
    unfolding noneDestroyed_def
  proof
    fix p assume "p \<in> set (desktops s')"
    then have p: "p \<in> set (desktops s)" "fst p \<notin> K" by (simp_all add: al)
    have "inst (snd p) \<notin> set L"
    proof
      assume "inst (snd p) \<in> set L"
      with sub obtain q where q: "q \<in> set (desktops s)" "fst q \<in> K" "(inst \<circ> snd) q = (inst \<circ> snd) p"
        by auto
      from inj_onD [OF inj q(3) q(1) p(1)] q(2) p(2) show False by simp
    qed
    moreover from nd p(1) have "inst (snd p) \<notin> set (destroyed s)" by (simp add: noneDestroyed_def)
    ultimately show "inst (snd p) \<notin> set (destroyed s')" by (simp add: log)
  qed
qed

lemma wellFormed_getDesktop:
  assumes wf: "wellFormed s"
  shows "wellFormed (snd (getDesktop f a d scr s))"
    and "noneDestroyed s \<Longrightarrow> noneDestroyed (snd (getDesktop f a d scr s))"
proof -
  have both: "wellFormed (snd (getDesktop f a d scr s))
      \<and> (noneDestroyed s \<longrightarrow> noneDestroyed (snd (getDesktop f a d scr s)))"
  proof (cases "shouldWorkOnDesktop f d")
    case False
    with wf show ?thesis by (simp add: getDesktop_rejected)
  next
    case True
    show ?thesis
    proof (cases "map_of (desktops s) (getDesktopKey a d scr)")
      case (Some e)
      with wf show ?thesis by (simp add: getDesktop_cached [OF True Some])
    next
      case None
      then have "getDesktopKey a d scr \<notin> fst ` set (desktops s)" by (simp add: map_of_eq_None_iff)
      with wf show ?thesis
        by (fastforce simp: getDesktop_created [OF True None] wellFormed_def noneDestroyed_def)
    qed
  qed
  from both show "wellFormed (snd (getDesktop f a d scr s))" by simp
  from both show "noneDestroyed s \<Longrightarrow> noneDestroyed (snd (getDesktop f a d scr s))" by simp
qed

lemma wellFormed_destroy: "wellFormed s \<Longrightarrow> wellFormed (destroy s)"
  by (auto simp: wellFormed_def destroy_eq)

lemma wellFormed_exec: "wellFormed (snd st) \<Longrightarrow> wellFormed (snd (exec f ev st))"
proof -
  assume wf: "wellFormed (snd st)"
  obtain w s where st: "st = (w, s)" by (cases st)
  show ?thesis
  proof (cases ev)
    case (GetDesktop a d scr)
    with wf st show ?thesis by (simp add: wellFormed_getDesktop)
  next
    case UpdateActivities
    with wf st wellFormed_destroys(1) [OF destroys_updateActivities [of s w]] show ?thesis by simp
  next
    case UpdateDesktops
    with wf st wellFormed_destroys(1) [OF destroys_updateDesktops [of s w]] show ?thesis by simp
  next
    case UpdateScreens
    with wf st wellFormed_destroys(1) [OF destroys_updateScreens [of s w]] show ?thesis by simp
  next
    case Destroy
    with wf st show ?thesis by (simp add: wellFormed_destroy)
  next
    case (HostChange w')
    with wf st show ?thesis by simp
  qed
qed

lemma noneDestroyed_exec:
  assumes "wellFormed (snd st)" and "noneDestroyed (snd st)" and "ev \<noteq> Destroy"
  shows "noneDestroyed (snd (exec f ev st))"
proof -
  obtain w s where st: "st = (w, s)" by (cases st)
  show ?thesis
  proof (cases ev)
    case (GetDesktop a d scr)
    with assms st show ?thesis by (simp add: wellFormed_getDesktop)
  next
    case UpdateActivities
    with assms st wellFormed_destroys(2) [OF destroys_updateActivities [of s w]] show ?thesis by simp
  next
    case UpdateDesktops
    with assms st wellFormed_destroys(2) [OF destroys_updateDesktops [of s w]] show ?thesis by simp
  next
    case UpdateScreens
    with assms st wellFormed_destroys(2) [OF destroys_updateScreens [of s w]] show ?thesis by simp
  next
    case Destroy
    with assms show ?thesis by simp
  next
    case (HostChange w')
    with assms st show ?thesis by simp
  qed
qed

text \<open>
  The side conditions of the theorems above hold in every state the manager can reach:
  the keys of the map are distinct, the instances it holds are pairwise different, and,
  as long as the teardown \<open>destroy()\<close> has not run, none of them has been destroyed.
\<close>

lemma reachable_wellFormed:
  "wellFormed (snd st) \<Longrightarrow> wellFormed (snd (run f evs st))"
  unfolding run_def by (induction evs arbitrary: st) (simp_all add: wellFormed_exec)

lemma reachable_noneDestroyed:
  "wellFormed (snd st) \<Longrightarrow> noneDestroyed (snd st) \<Longrightarrow> Destroy \<notin> set evs
   \<Longrightarrow> noneDestroyed (snd (run f evs st))"
  unfolding run_def
proof (induction evs arbitrary: st)
  case Nil
  then show ?case by simp
next
  case (Cons ev evs)
  from Cons.prems have "ev \<noteq> Destroy" "Destroy \<notin> set evs" by auto
  with Cons.IH [OF wellFormed_exec [OF Cons.prems(1)] noneDestroyed_exec [OF Cons.prems(1,2)]]
  show ?case by simp
qed

lemma reachable_from_constructor:
  "wellFormed (snd (run f evs (initial w)))"
  "Destroy \<notin> set evs \<Longrightarrow> noneDestroyed (snd (run f evs (initial w)))"
  using wellFormed_constructor [of w]
  by (simp_all add: reachable_wellFormed reachable_noneDestroyed initial_def)

end
